(* ===== verification/Prelude.thy ===== *)
theory Prelude
  imports Main "HOL-Library.Word"
begin

text \<open>
  Shared ground of the development: the machine types of the Go code, the error values its
  functions return, and the small lemmas and rule collections the component theories use.

  Go's \<open>string\<close> is a sequence of bytes, which is what HOL's \<open>string\<close> is (a \<open>char\<close> has
  eight bits); \<open>[]byte\<close> is a list of 8-bit words. A Go function that returns a value and an
  \<open>error\<close> returns both here as well: the value is there even when the error is set, because
  the code assigns it before it looks at the error.
\<close>

section \<open>Machine types\<close>

type_synonym u8 = "8 word"
type_synonym u32 = "32 word"
type_synonym u64 = "64 word"
type_synonym i64 = "64 word" \<comment> \<open>\<open>int64\<close>: the same bits, read with \<open>sint\<close>\<close>
type_synonym bytes = "8 word list"

definition byte_of_char :: "char \<Rightarrow> u8" where
  "byte_of_char c = word_of_nat (of_char c)"

definition str_bytes :: "string \<Rightarrow> bytes" where
  "str_bytes s = map byte_of_char s"

section \<open>Error values\<close>

text \<open>
  \<open>Lib e\<close> is an error value made by code outside the repository. The other constructors are
  the errors the repository's own code makes, one per way of making them; a nil \<open>error\<close> is
  \<open>None\<close> at type \<open>'e goerr option\<close>.
\<close>

datatype 'e goerr =
    Lib 'e
  | WrapError "'e goerr" "string list" \<comment> \<open>\<open>msgp.WrapError(err, ctx...)\<close>\<close>
  | ArrayError u32 u32                  \<comment> \<open>\<open>msgp.ArrayError{Wanted, Got}\<close>\<close>
  | ErrorfV string "'e goerr"           \<comment> \<open>\<open>fmt.Errorf("<text>%v", err)\<close>\<close>
  | ErrorfT string string               \<comment> \<open>\<open>fmt.Errorf("%T<text>", v)\<close>: the type name, then the text\<close>
  | ErrorsNew string                    \<comment> \<open>\<open>errors.New("<text>")\<close>\<close>

definition wrap :: "'e goerr option \<Rightarrow> string list \<Rightarrow> 'e goerr option" where
  "wrap err ctx = map_option (\<lambda>e. WrapError e ctx) err"

section \<open>Rule collections\<close>

named_theorems wire_simps "what a map-encoded value is, byte by byte"
named_theorems mem_simps "copies and kept buffers in the store of Go slices"

section \<open>Lemmas\<close>

lemma wrap_None [simp]: "wrap None ctx = None"
  by (simp add: wrap_def)

lemma wrap_Some [simp]: "wrap (Some e) ctx = Some (WrapError e ctx)"
  by (simp add: wrap_def)

lemma wrap_eq_None_iff [simp]: "wrap err ctx = None \<longleftrightarrow> err = None"
  by (simp add: wrap_def)

lemma length_str_bytes [simp]: "length (str_bytes s) = length s"
  by (simp add: str_bytes_def)

lemma str_bytes_append [simp]: "str_bytes (s @ t) = str_bytes s @ str_bytes t"
  by (simp add: str_bytes_def)

lemma byte_of_char_inject: "byte_of_char c = byte_of_char d \<longleftrightarrow> c = d"
proof
  assume "byte_of_char c = byte_of_char d"
  then have "unat (byte_of_char c) = unat (byte_of_char d)" by simp
  moreover have "unat (byte_of_char x) = of_char x" for x
    by (simp add: byte_of_char_def unat_of_nat take_bit_nat_eq_self)
  ultimately show "c = d" by simp
qed simp

lemma str_bytes_inject: "str_bytes s = str_bytes t \<longleftrightarrow> s = t"
  unfolding str_bytes_def
  by (metis byte_of_char_inject inj_map_eq_map injI)

lemma length_filter_update:
  assumes "i < length xs"
  shows "length (filter P (xs[i := x])) + (if P (xs ! i) then 1 else 0) = length (filter P xs) + (if P x then 1 else 0)"
proof -
  have "length (filter P xs) = length (filter P (take i xs @ xs ! i # drop (Suc i) xs))"
    using id_take_nth_drop [OF assms] by (metis (no_types))
  then show ?thesis using assms by (simp add: upd_conv_take_nth_drop)
qed

end
