(* ===== verification/Msgp.thy ===== *)
theory Msgp
  imports Prelude
begin

text \<open>
  The interface of \<open>github.com/tinylib/msgp/msgp\<close>, whose code is not part of the repository.
  Every function of it that the repository calls is a field of a record, and the definitions
  that call it take the record as an argument. What the repository relies on is stated as the
  laws of three locales, each law a sentence of the library's documentation or of the published
  MessagePack format.

  Both reading interfaces have the same shape, so they share one record: the \<open>Read...Bytes\<close>
  functions, whose state \<open>'s\<close> is the byte slice that is left, and the methods of
  \<open>msgp.Reader\<close>, whose state is the reader. \<open>'raw\<close> is the representation of
  \<open>msgp.Raw\<close>: a byte list, or a slice of the store (theory \<open>Go_Memory\<close>).
\<close>

section \<open>The library as parameters\<close>

record 'e msgp_append =
  AppendUint64 :: "bytes \<Rightarrow> u64 \<Rightarrow> bytes"
  AppendInt64 :: "bytes \<Rightarrow> i64 \<Rightarrow> bytes"
  AppendUint32 :: "bytes \<Rightarrow> u32 \<Rightarrow> bytes"
  AppendString :: "bytes \<Rightarrow> string \<Rightarrow> bytes"
  AppendNil :: "bytes \<Rightarrow> bytes"
  Require :: "bytes \<Rightarrow> nat \<Rightarrow> bytes"
  Raw_MarshalMsg :: "bytes \<Rightarrow> bytes \<Rightarrow> bytes \<times> 'e goerr option"
  Raw_Msgsize :: "bytes \<Rightarrow> nat"
  Uint64Size :: nat
  Int64Size :: nat
  Uint32Size :: nat
  StringPrefixSize :: nat
  NilSize :: nat

record ('s, 'raw, 'e) msgp_in =
  ReadArrayHeader :: "'s \<Rightarrow> u32 \<times> 's \<times> 'e goerr option"
  ReadMapHeader :: "'s \<Rightarrow> u32 \<times> 's \<times> 'e goerr option"
  ReadMapKey :: "'s \<Rightarrow> string \<times> 's \<times> 'e goerr option"
    \<comment> \<open>\<open>ReadMapKeyZC\<close> or \<open>ReadMapKeyPtr\<close>, read through \<open>UnsafeString\<close>\<close>
  ReadUint64 :: "'s \<Rightarrow> u64 \<times> 's \<times> 'e goerr option"
  ReadInt64 :: "'s \<Rightarrow> i64 \<times> 's \<times> 'e goerr option"
  ReadUint32 :: "'s \<Rightarrow> u32 \<times> 's \<times> 'e goerr option"
  ReadString :: "'s \<Rightarrow> string \<times> 's \<times> 'e goerr option"
  IsNil :: "'s \<Rightarrow> bool \<times> 's"
  ReadNil :: "'s \<Rightarrow> 's \<times> 'e goerr option"
  Skip :: "'s \<Rightarrow> 's \<times> 'e goerr option"
  Raw_Read :: "'raw \<Rightarrow> 's \<Rightarrow> 'raw \<times> 's \<times> 'e goerr option"
    \<comment> \<open>\<open>Raw.UnmarshalMsg\<close> or \<open>Raw.DecodeMsg\<close>, the first argument the receiver\<close>

record ('w, 'e) msgp_out =
  Append :: "'w \<Rightarrow> bytes \<Rightarrow> 'w \<times> 'e goerr option"
  WriteUint64 :: "'w \<Rightarrow> u64 \<Rightarrow> 'w \<times> 'e goerr option"
  WriteInt64 :: "'w \<Rightarrow> i64 \<Rightarrow> 'w \<times> 'e goerr option"
  WriteUint32 :: "'w \<Rightarrow> u32 \<Rightarrow> 'w \<times> 'e goerr option"
  WriteString :: "'w \<Rightarrow> string \<Rightarrow> 'w \<times> 'e goerr option"
  WriteNil :: "'w \<Rightarrow> 'w \<times> 'e goerr option"
  Raw_EncodeMsg :: "bytes \<Rightarrow> 'w \<Rightarrow> 'w \<times> 'e goerr option"
  Flush :: "'w \<Rightarrow> 'w \<times> 'e goerr option"

section \<open>The format\<close>

definition nil_byte :: u8 where
  "nil_byte = 0xc0"

text \<open>A key of a map as the generated code writes it: a \<open>fixstr\<close> header and the bytes.\<close>

definition fixstr :: "string \<Rightarrow> bytes" where
  "fixstr k = (0xa0 + word_of_nat (length k)) # str_bytes k"

text \<open>What \<open>Raw\<close> puts on the wire: itself, or nil when it is empty.\<close>

definition raw_form :: "bytes \<Rightarrow> bytes" where
  "raw_form raw = (if raw = [] then [nil_byte] else raw)"

text \<open>The payload a receiver keeps for an object: nil is kept as an empty payload.\<close>

definition raw_kept :: "bytes \<Rightarrow> bytes" where
  "raw_kept w = (if w = [nil_byte] then [] else w)"

definition str_ok :: "string \<Rightarrow> bool" where
  "str_ok s \<longleftrightarrow> length s < 2 ^ 32"

lemma raw_kept_form: "w \<noteq> [nil_byte] \<Longrightarrow> raw_kept (raw_form w) = w"
  by (simp add: raw_kept_def raw_form_def)

lemma raw_form_not_Nil [simp]: "raw_form w \<noteq> []"
  by (simp add: raw_form_def)

text \<open>
  \<open>reads view f enc v\<close>: whenever the pending bytes of the source start with \<open>enc\<close>,
  \<open>f\<close> returns \<open>v\<close> without an error and consumes exactly \<open>enc\<close>.
\<close>

definition reads :: "('s \<Rightarrow> bytes) \<Rightarrow> ('s \<Rightarrow> 'a \<times> 's \<times> 'e goerr option) \<Rightarrow> bytes \<Rightarrow> 'a \<Rightarrow> bool" where
  "reads view f enc v \<longleftrightarrow>
     (\<forall>s rest. view s = enc @ rest \<longrightarrow> (\<exists>s'. f s = (v, s', None) \<and> view s' = rest))"

lemma readsI:
  "(\<And>s rest. view s = enc @ rest \<Longrightarrow> \<exists>s'. f s = (v, s', None) \<and> view s' = rest) \<Longrightarrow> reads view f enc v"
  by (simp add: reads_def)

lemma reads_exactly: "reads (\<lambda>s. s) rd enc v \<Longrightarrow> rd (enc @ rest) = (v, rest, None)"
  by (simp add: reads_def)

lemma readsE:
  assumes "reads view f enc v" and "view s = enc @ rest"
  obtains s' where "f s = (v, s', None)" and "view s' = rest"
  using assms by (auto simp: reads_def)

text \<open>\<open>writes out g enc\<close>: when \<open>g\<close> reports no error it has added exactly \<open>enc\<close>.\<close>

definition writes :: "('w \<Rightarrow> bytes) \<Rightarrow> ('w \<Rightarrow> 'w \<times> 'e goerr option) \<Rightarrow> bytes \<Rightarrow> bool" where
  "writes out g enc \<longleftrightarrow> (\<forall>w w'. g w = (w', None) \<longrightarrow> out w' = out w @ enc)"

lemma writesD: "writes out g enc \<Longrightarrow> g w = (w', None) \<Longrightarrow> out w' = out w @ enc"
  by (simp add: writes_def)

section \<open>What the repository relies on\<close>

text \<open>
  Encoding: the \<open>Append\<close> functions append, the sizes are upper bounds, and \<open>obj\<close> holds of
  the byte strings that are one MessagePack object.
\<close>

locale msgp_encoding =
  fixes A :: "'e msgp_append"
    and obj :: "bytes \<Rightarrow> bool"
  assumes append_uint64: "AppendUint64 A b v = b @ AppendUint64 A [] v"
    and append_int64: "AppendInt64 A b v = b @ AppendInt64 A [] v"
    and append_uint32: "AppendUint32 A b u = b @ AppendUint32 A [] u"
    and append_string: "AppendString A b t = b @ AppendString A [] t"
    and append_nil: "AppendNil A b = b @ [nil_byte]"
    and require: "Require A b n = b"
    and raw_marshal: "Raw_MarshalMsg A raw b = (b @ raw_form raw, None)"
    and size_uint64: "length (AppendUint64 A [] v) \<le> Uint64Size A"
    and size_int64: "length (AppendInt64 A [] v) \<le> Int64Size A"
    and size_uint32: "length (AppendUint32 A [] u) \<le> Uint32Size A"
    and size_string: "str_ok t \<Longrightarrow> length (AppendString A [] t) \<le> StringPrefixSize A + length t"
    and size_nil: "1 \<le> NilSize A"
    and size_raw: "length (raw_form raw) \<le> Raw_Msgsize A raw"
    and obj_nil: "obj [nil_byte]"
    and obj_nonempty: "\<not> obj []"
    and obj_uint64: "obj (AppendUint64 A [] v)"
    and obj_int64: "obj (AppendInt64 A [] v)"
    and obj_uint32: "obj (AppendUint32 A [] u)"
    and obj_string: "str_ok t \<Longrightarrow> obj (AppendString A [] t)"
    and obj_fixstr: "length k < 32 \<Longrightarrow> obj (fixstr k)"
    and obj_fixarray: "list_all obj ws \<Longrightarrow> length ws < 16 \<Longrightarrow>
           obj ((0x90 + word_of_nat (length ws)) # concat ws)"
    and obj_fixmap: "list_all obj ws \<Longrightarrow> length ws = 2 * n \<Longrightarrow> n < 16 \<Longrightarrow>
           obj ((0x80 + word_of_nat n) # concat ws)"

context msgp_encoding
begin

text \<open>The append laws as rewrite rules: the guard keeps them from rewriting their own result.\<close>

lemma append_nonempty [simp]:
  "b \<noteq> [] \<Longrightarrow> AppendUint64 A b v = b @ AppendUint64 A [] v"
  "b \<noteq> [] \<Longrightarrow> AppendInt64 A b v = b @ AppendInt64 A [] v"
  "b \<noteq> [] \<Longrightarrow> AppendUint32 A b u = b @ AppendUint32 A [] u"
  "b \<noteq> [] \<Longrightarrow> AppendString A b t = b @ AppendString A [] t"
  by (rule append_uint64 append_int64 append_uint32 append_string)+

end

text \<open>
  Decoding: the readers are inverse to the writers, consume exactly the object they read,
  and leave the rest. \<open>view\<close> is what the source still holds.
\<close>

locale msgp_decoding = msgp_encoding A obj
  for A :: "'e msgp_append" and obj :: "bytes \<Rightarrow> bool" +
  fixes S :: "('s, bytes, 'e) msgp_in"
    and view :: "'s \<Rightarrow> bytes"
  assumes read_array_header: "n < 16 \<Longrightarrow>
      reads view (ReadArrayHeader S) [0x90 + word_of_nat n] (word_of_nat n)"
    and read_map_header: "n < 16 \<Longrightarrow>
      reads view (ReadMapHeader S) [0x80 + word_of_nat n] (word_of_nat n)"
    and read_map_key: "length k < 32 \<Longrightarrow> reads view (ReadMapKey S) (fixstr k) k"
    and read_uint64: "reads view (ReadUint64 S) (AppendUint64 A [] v) v"
    and read_int64: "reads view (ReadInt64 S) (AppendInt64 A [] v) v"
    and read_uint32: "reads view (ReadUint32 S) (AppendUint32 A [] u) u"
    and read_string: "str_ok t \<Longrightarrow> reads view (ReadString S) (AppendString A [] t) t"
    and read_raw: "obj w \<Longrightarrow> reads view (Raw_Read S raw) w (raw_kept w)"
    and is_nil: "view s = b # rest \<Longrightarrow> \<exists>s'. IsNil S s = (b = nil_byte, s') \<and> view s' = view s"
    and read_nil: "view s = nil_byte # rest \<Longrightarrow> \<exists>s'. ReadNil S s = (s', None) \<and> view s' = rest"
    and skip: "obj w \<Longrightarrow> view s = w @ rest \<Longrightarrow> \<exists>s'. Skip S s = (s', None) \<and> view s' = rest"

text \<open>
  Accepted input: what a reader returns without an error is a value of the format, and a
  payload does not depend on what its receiver held.
\<close>

locale msgp_accepting = msgp_decoding A obj S view
  for A :: "'e msgp_append" and obj and S :: "('s, bytes, 'e) msgp_in" and view +
  assumes accepts_string: "ReadString S s = (v, s', None) \<Longrightarrow> str_ok v"
    and accepts_raw: "Raw_Read S raw s = (w, s', None) \<Longrightarrow> w = [] \<or> obj w \<and> w \<noteq> [nil_byte]"
    and raw_receiver: "snd (Raw_Read S raw s) = snd (Raw_Read S raw' s)"
    and raw_receiver_value: "Raw_Read S raw s = (w, s', None) \<Longrightarrow> Raw_Read S raw' s = (w, s', None)"

text \<open>Writing to a stream: what a successful call adds to the writer's output.\<close>

locale msgp_writing = msgp_encoding A obj
  for A :: "'e msgp_append" and obj :: "bytes \<Rightarrow> bool" +
  fixes W :: "('w, 'e) msgp_out"
    and out :: "'w \<Rightarrow> bytes"   \<comment> \<open>everything written so far, flushed or not\<close>
    and sent :: "'w \<Rightarrow> bytes"  \<comment> \<open>what has reached the underlying writer\<close>
  assumes write_bytes: "writes out (\<lambda>w. Append W w b) b"
    and write_uint64: "writes out (\<lambda>w. WriteUint64 W w v) (AppendUint64 A [] v)"
    and write_int64: "writes out (\<lambda>w. WriteInt64 W w v) (AppendInt64 A [] v)"
    and write_uint32: "writes out (\<lambda>w. WriteUint32 W w u) (AppendUint32 A [] u)"
    and write_string: "writes out (\<lambda>w. WriteString W w t) (AppendString A [] t)"
    and write_nil: "writes out (WriteNil W) [nil_byte]"
    and write_raw: "writes out (Raw_EncodeMsg W raw) (raw_form raw)"
    and flush: "Flush W w = (w', None) \<Longrightarrow> out w' = out w \<and> sent w' = out w"

end
