(* ===== verification/Msgpack_Ref.thy ===== *)
theory Msgpack_Ref
  imports Msgp
begin

text \<open>
  A reference instance of the interface of theory \<open>Msgp\<close>: the published MessagePack format,
  written down as functions on byte lists. It is not a model of the msgp library's code. It
  shows that the laws the repository relies on hold together, on the real format, and it is
  what the development's concrete examples run on.
\<close>

section \<open>Big-endian numbers\<close>

fun be :: "nat \<Rightarrow> nat \<Rightarrow> bytes" where
  "be 0 v = []"
| "be (Suc k) v = be k (v div 256) @ [word_of_nat v]"

definition unbe :: "bytes \<Rightarrow> nat" where
  "unbe bs = foldl (\<lambda>a b. a * 256 + unat b) 0 bs"

lemma length_be [simp]: "length (be k v) = k"
  by (induction k arbitrary: v) auto

lemma unbe_snoc: "unbe (bs @ [b]) = unbe bs * 256 + unat b"
  by (simp add: unbe_def)

lemma unat_u8 [simp]: "unat (word_of_nat n :: u8) = n mod 256"
  by (simp add: unat_of_nat take_bit_eq_mod)

lemma unbe_be: "v < 256 ^ k \<Longrightarrow> unbe (be k v) = v"
proof (induction k arbitrary: v)
  case 0
  then show ?case by (simp add: unbe_def)
next
  case (Suc k)
  then have "v div 256 < 256 ^ k" by (simp add: div_less_iff_less_mult mult.commute)
  with Suc.IH show ?case by (simp add: unbe_snoc)
qed

lemma unbe_bound: "unbe bs < 256 ^ length bs"
proof (induction bs rule: rev_induct)
  case Nil
  then show ?case by (simp add: unbe_def)
next
  case (snoc b bs)
  have "unat b < 256" using unsigned_less [of b, where ?'a = nat] by simp
  with snoc show ?case by (simp add: unbe_snoc)
qed

section \<open>Objects and skipping\<close>

text \<open>
  \<open>mp_head b bs\<close>: an object that starts with byte \<open>b\<close>, followed by \<open>bs\<close>, has \<open>c\<close> further
  objects inside it, after the next \<open>d\<close> bytes.
\<close>

datatype shape =
    Fixed nat nat    \<comment> \<open>objects inside, bytes after the head\<close>
  | Sized nat nat    \<comment> \<open>width of the length field, bytes besides the announced ones\<close>
  | Counted nat nat  \<comment> \<open>width of the count field, objects per count\<close>
  | Unused

definition mp_shape :: "u8 \<Rightarrow> shape" where
  "mp_shape b =
     (let n = unat b in
      if n < 0x80 \<or> 0xe0 \<le> n then Fixed 0 0               \<comment> \<open>fixint\<close>
      else if n < 0x90 then Fixed (2 * (n - 0x80)) 0       \<comment> \<open>fixmap\<close>
      else if n < 0xa0 then Fixed (n - 0x90) 0             \<comment> \<open>fixarray\<close>
      else if n < 0xc0 then Fixed 0 (n - 0xa0)             \<comment> \<open>fixstr\<close>
      else if n = 0xc0 \<or> n = 0xc2 \<or> n = 0xc3 then Fixed 0 0 \<comment> \<open>nil, false, true\<close>
      else if n = 0xc4 \<or> n = 0xd9 then Sized 1 0           \<comment> \<open>bin, str\<close>
      else if n = 0xc5 \<or> n = 0xda then Sized 2 0
      else if n = 0xc6 \<or> n = 0xdb then Sized 4 0
      else if n = 0xc7 then Sized 1 1                      \<comment> \<open>ext\<close>
      else if n = 0xc8 then Sized 2 1
      else if n = 0xc9 then Sized 4 1
      else if n = 0xca \<or> n = 0xce \<or> n = 0xd2 then Fixed 0 4 \<comment> \<open>32-bit numbers\<close>
      else if n = 0xcb \<or> n = 0xcf \<or> n = 0xd3 then Fixed 0 8 \<comment> \<open>64-bit numbers\<close>
      else if n = 0xcc \<or> n = 0xd0 then Fixed 0 1
      else if n = 0xcd \<or> n = 0xd1 then Fixed 0 2
      else if n = 0xd4 then Fixed 0 2                      \<comment> \<open>fixext\<close>
      else if n = 0xd5 then Fixed 0 3
      else if n = 0xd6 then Fixed 0 5
      else if n = 0xd7 then Fixed 0 9
      else if n = 0xd8 then Fixed 0 17
      else if n = 0xdc then Counted 2 1                    \<comment> \<open>array\<close>
      else if n = 0xdd then Counted 4 1
      else if n = 0xde then Counted 2 2                    \<comment> \<open>map\<close>
      else if n = 0xdf then Counted 4 2
      else Unused)"

definition mp_head :: "u8 \<Rightarrow> bytes \<Rightarrow> (nat \<times> nat) option" where
  "mp_head b bs =
     (case mp_shape b of
        Fixed c d \<Rightarrow> Some (c, d)
      | Sized k extra \<Rightarrow> if length bs < k then None else Some (0, k + extra + unbe (take k bs))
      | Counted k per \<Rightarrow> if length bs < k then None else Some (per * unbe (take k bs), k)
      | Unused \<Rightarrow> None)"

lemma mp_head_append: "mp_head b bs = Some r \<Longrightarrow> mp_head b (bs @ rest) = Some r"
  by (auto simp: mp_head_def split: shape.splits if_splits)

lemma mp_head_prefix:
  "mp_head b (bs @ rest) = Some (c, d) \<Longrightarrow> d \<le> length bs \<Longrightarrow> mp_head b bs = Some (c, d)"
  by (auto simp: mp_head_def split: shape.splits if_splits)

fun mp_skip :: "nat \<Rightarrow> bytes \<Rightarrow> bytes option" where
  "mp_skip 0 bs = Some bs"
| "mp_skip (Suc k) [] = None"
| "mp_skip (Suc k) (b # bs) =
     (case mp_head b bs of
        None \<Rightarrow> None
      | Some (c, d) \<Rightarrow> if length bs < d then None else mp_skip (c + k) (drop d bs))"

definition mp_obj :: "bytes \<Rightarrow> bool" where
  "mp_obj w \<longleftrightarrow> mp_skip 1 w = Some []"

text \<open>Skipping composes: what follows the skipped objects does not matter.\<close>

lemma mp_skip_append: "mp_skip k w = Some r \<Longrightarrow> mp_skip (k + j) (w @ rest) = mp_skip j (r @ rest)"
proof (induction k w arbitrary: r rule: mp_skip.induct)
  case (3 k b bs)
  then obtain c d where cd: "mp_head b bs = Some (c, d)" "\<not> length bs < d"
    "mp_skip (c + k) (drop d bs) = Some r"
    by (auto split: option.splits if_splits)
  with 3(1) [of "(c, d)" c d] have "mp_skip (c + k + j) (drop d bs @ rest) = mp_skip j (r @ rest)"
    by simp
  with cd show ?case by (simp add: mp_head_append add.assoc)
qed auto

lemma mp_skip_concat: "list_all mp_obj ws \<Longrightarrow> mp_skip (length ws + j) (concat ws @ rest) = mp_skip j rest"
proof (induction ws)
  case (Cons w ws)
  then have "mp_skip (1 + (length ws + j)) (w @ (concat ws @ rest)) = mp_skip (length ws + j) ([] @ concat ws @ rest)"
    by (intro mp_skip_append) (simp add: mp_obj_def)
  with Cons show ?case by simp
qed simp

lemma mp_skip_obj: "mp_obj w \<Longrightarrow> mp_skip 1 (w @ rest) = Some rest"
  using mp_skip_append [of 1 w "[]" 0 rest] by (simp add: mp_obj_def)

text \<open>The bytes that were skipped are objects on their own.\<close>

lemma mp_skip_prefix: "mp_skip k s = Some r \<Longrightarrow> \<exists>w. s = w @ r \<and> mp_skip k w = Some []"
proof (induction k s arbitrary: r rule: mp_skip.induct)
  case (3 k b bs)
  then obtain c d where cd: "mp_head b bs = Some (c, d)" "\<not> length bs < d"
    "mp_skip (c + k) (drop d bs) = Some r"
    by (auto split: option.splits if_splits)
  with 3(1) [of "(c, d)" c d] obtain w where w: "drop d bs = w @ r" "mp_skip (c + k) w = Some []"
    by auto
  from w(1) have bs: "bs = (take d bs @ w) @ r"
    by (metis append.assoc append_take_drop_id)
  moreover have "d \<le> length (take d bs @ w)" using cd(2) by simp
  ultimately have "mp_head b (take d bs @ w) = Some (c, d)"
    using cd(1) mp_head_prefix by metis
  with w cd(2) bs have "mp_skip (Suc k) (b # take d bs @ w) = Some []" by simp
  with bs show ?case by (metis append_Cons)
qed auto

section \<open>Numbers\<close>

definition mp_uint :: "nat \<Rightarrow> bytes" where
  "mp_uint n =
     (if n < 128 then [word_of_nat n]
      else if n < 2 ^ 8 then 0xcc # be 1 n
      else if n < 2 ^ 16 then 0xcd # be 2 n
      else if n < 2 ^ 32 then 0xce # be 4 n
      else 0xcf # be 8 n)"

definition mp_int :: "int \<Rightarrow> bytes" where
  "mp_int i =
     (if 0 \<le> i then mp_uint (nat i)
      else if - 32 \<le> i then [word_of_nat (nat (i + 256))]
      else if - (2 ^ 7) \<le> i then 0xd0 # be 1 (nat (i + 2 ^ 8))
      else if - (2 ^ 15) \<le> i then 0xd1 # be 2 (nat (i + 2 ^ 16))
      else if - (2 ^ 31) \<le> i then 0xd2 # be 4 (nat (i + 2 ^ 32))
      else 0xd3 # be 8 (nat (i + 2 ^ 64)))"

definition unsigned_field :: "nat \<Rightarrow> bytes \<Rightarrow> (int \<times> bytes) option" where
  "unsigned_field k bs =
     (if length bs < k then None else Some (int (unbe (take k bs)), drop k bs))"

definition signed_field :: "nat \<Rightarrow> bytes \<Rightarrow> (int \<times> bytes) option" where
  "signed_field k bs =
     (if length bs < k then None
      else let v = int (unbe (take k bs))
           in Some (if v < 2 ^ (8 * k - 1) then v else v - 2 ^ (8 * k), drop k bs))"

fun mp_read_int :: "bytes \<Rightarrow> (int \<times> bytes) option" where
  "mp_read_int [] = None"
| "mp_read_int (b # bs) =
     (if b < 0x80 then Some (int (unat b), bs)
      else if 0xe0 \<le> b then Some (int (unat b) - 256, bs)
      else if b = 0xcc then unsigned_field 1 bs
      else if b = 0xcd then unsigned_field 2 bs
      else if b = 0xce then unsigned_field 4 bs
      else if b = 0xcf then unsigned_field 8 bs
      else if b = 0xd0 then signed_field 1 bs
      else if b = 0xd1 then signed_field 2 bs
      else if b = 0xd2 then signed_field 4 bs
      else if b = 0xd3 then signed_field 8 bs
      else None)"

lemma unsigned_field_be: "n < 256 ^ k \<Longrightarrow> unsigned_field k (be k n @ rest) = Some (int n, rest)"
  by (simp add: unsigned_field_def unbe_be)

lemma mp_read_uint: "n < 2 ^ 64 \<Longrightarrow> mp_read_int (mp_uint n @ rest) = Some (int n, rest)"
  unfolding mp_uint_def
  by (auto simp: unsigned_field_be word_less_nat_alt word_le_nat_alt simp del: be.simps)

lemma signed_field_be:
  assumes "- (2 ^ (8 * k - 1)) \<le> i" and "i < 0" and "0 < k"
  shows "signed_field k (be k (nat (i + 2 ^ (8 * k))) @ rest) = Some (i, rest)"
proof -
  have p: "(2::int) ^ (8 * k) = 2 * 2 ^ (8 * k - 1)"
    using assms(3) by (metis Suc_diff_1 mult_pos_pos power_Suc zero_less_numeral)
  have "nat (i + 2 ^ (8 * k)) < 2 ^ (8 * k)"
    using assms(2) by (simp add: nat_less_iff p)
  then have "nat (i + 2 ^ (8 * k)) < 256 ^ k" by (simp add: power_mult)
  moreover have "2 ^ (8 * k - 1) \<le> i + 2 ^ (8 * k)" using assms(1) p by simp
  moreover have "0 \<le> i + 2 ^ (8 * k)" using assms(1) p
    by (smt (verit) zero_less_power)
  ultimately show ?thesis by (simp add: signed_field_def unbe_be)
qed

lemma negative_fixint:
  assumes "224 \<le> j" and "j < 256"
  shows "mp_read_int (word_of_nat j # rest) = Some (int j - 256, rest)"
    and "mp_obj [word_of_nat j]"
  using assms
  by (simp_all add: word_less_nat_alt word_le_nat_alt mp_obj_def mp_head_def mp_shape_def)

lemma mp_int_negative:
  assumes "i < 0"
  shows "- 32 \<le> i \<Longrightarrow> mp_int i = [word_of_nat (nat (i + 256))]"
    and "- (2 ^ 7) \<le> i \<Longrightarrow> i < - 32 \<Longrightarrow> mp_int i = 0xd0 # be 1 (nat (i + 2 ^ 8))"
    and "- (2 ^ 15) \<le> i \<Longrightarrow> i < - (2 ^ 7) \<Longrightarrow> mp_int i = 0xd1 # be 2 (nat (i + 2 ^ 16))"
    and "- (2 ^ 31) \<le> i \<Longrightarrow> i < - (2 ^ 15) \<Longrightarrow> mp_int i = 0xd2 # be 4 (nat (i + 2 ^ 32))"
    and "i < - (2 ^ 31) \<Longrightarrow> mp_int i = 0xd3 # be 8 (nat (i + 2 ^ 64))"
  using assms by (simp_all add: mp_int_def del: be.simps of_nat_nat)

lemma mp_int_cases:
  obtains "0 \<le> (i::int)" | "i < 0" "- 32 \<le> i" | "i < 0" "- (2 ^ 7) \<le> i" "i < - 32"
  | "i < 0" "- (2 ^ 15) \<le> i" "i < - (2 ^ 7)" | "i < 0" "- (2 ^ 31) \<le> i" "i < - (2 ^ 15)"
  | "i < 0" "i < - (2 ^ 31)"
  by linarith

lemma read_signed_head:
  "mp_read_int (0xd0 # bs) = signed_field 1 bs" "mp_read_int (0xd1 # bs) = signed_field 2 bs"
  "mp_read_int (0xd2 # bs) = signed_field 4 bs" "mp_read_int (0xd3 # bs) = signed_field 8 bs"
  by (simp_all add: word_less_nat_alt word_le_nat_alt)

lemma mp_read_int:
  assumes "- (2 ^ 63) \<le> i" and "i < 2 ^ 63"
  shows "mp_read_int (mp_int i @ rest) = Some (i, rest)"
proof (cases rule: mp_int_cases [of i])
  case 1
  with assms show ?thesis by (simp add: mp_int_def mp_read_uint)
next
  case 2
  then have "224 \<le> nat (i + 256)" "nat (i + 256) < 256" by simp_all
  from negative_fixint(1) [OF this, of rest] show ?thesis
    using 2 by (simp only: mp_int_negative(1) append_Cons append_Nil) simp
next
  case 3
  with signed_field_be [of 1 i rest] show ?thesis
    by (simp only: mp_int_negative(2) append_Cons read_signed_head) simp
next
  case 4
  with signed_field_be [of 2 i rest] show ?thesis
    by (simp only: mp_int_negative(3) append_Cons read_signed_head) simp
next
  case 5
  with signed_field_be [of 4 i rest] show ?thesis
    by (simp only: mp_int_negative(4) append_Cons read_signed_head) simp
next
  case 6
  with assms signed_field_be [of 8 i rest] show ?thesis
    by (simp only: mp_int_negative(5) append_Cons read_signed_head) simp
qed

lemma mp_obj_uint: "mp_obj (mp_uint n)"
  unfolding mp_uint_def mp_obj_def
  by (simp add: mp_head_def mp_shape_def Let_def del: be.simps)

lemma mp_obj_signed:
  "length bs = 1 \<Longrightarrow> mp_obj (0xd0 # bs)" "length bs = 2 \<Longrightarrow> mp_obj (0xd1 # bs)"
  "length bs = 4 \<Longrightarrow> mp_obj (0xd2 # bs)" "length bs = 8 \<Longrightarrow> mp_obj (0xd3 # bs)"
  by (simp_all add: mp_obj_def mp_head_def mp_shape_def)

lemma mp_obj_int: "mp_obj (mp_int i)"
proof (cases rule: mp_int_cases [of i])
  case 1
  then show ?thesis by (simp add: mp_int_def mp_obj_uint)
next
  case 2
  then show ?thesis by (simp only: mp_int_negative(1) negative_fixint(2))
qed (simp_all only: mp_int_negative mp_obj_signed length_be)

lemma length_mp_uint: "length (mp_uint n) \<le> 9" "n < 2 ^ 32 \<Longrightarrow> length (mp_uint n) \<le> 5"
  by (auto simp: mp_uint_def simp del: be.simps)

lemma length_mp_int: "length (mp_int i) \<le> 9"
  using length_mp_uint(1) by (auto simp: mp_int_def simp del: be.simps)

section \<open>Strings and collections\<close>

definition mp_string :: "string \<Rightarrow> bytes" where
  "mp_string s =
     (let n = length s in
      if n < 32 then fixstr s
      else if n < 2 ^ 8 then 0xd9 # be 1 n @ str_bytes s
      else if n < 2 ^ 16 then 0xda # be 2 n @ str_bytes s
      else 0xdb # be 4 n @ str_bytes s)"

definition bytes_str :: "bytes \<Rightarrow> string" where
  "bytes_str bs = map (\<lambda>b. char_of (unat b)) bs"

definition str_field :: "nat \<Rightarrow> bytes \<Rightarrow> (string \<times> bytes) option" where
  "str_field n bs = (if length bs < n then None else Some (bytes_str (take n bs), drop n bs))"

definition long_str_field :: "nat \<Rightarrow> bytes \<Rightarrow> (string \<times> bytes) option" where
  "long_str_field k bs =
     (if length bs < k then None else str_field (unbe (take k bs)) (drop k bs))"

fun mp_read_string :: "bytes \<Rightarrow> (string \<times> bytes) option" where
  "mp_read_string [] = None"
| "mp_read_string (b # bs) =
     (if 0xa0 \<le> b \<and> b < 0xc0 then str_field (unat b - 0xa0) bs
      else if b = 0xd9 then long_str_field 1 bs
      else if b = 0xda then long_str_field 2 bs
      else if b = 0xdb then long_str_field 4 bs
      else None)"

text \<open>The header of an array (\<open>per = 1\<close>) or a map: short form, 16-bit and 32-bit counts.\<close>

definition mp_read_header :: "u8 \<Rightarrow> u8 \<Rightarrow> u8 \<Rightarrow> bytes \<Rightarrow> (u32 \<times> bytes) option" where
  "mp_read_header short h16 h32 bs =
     (case bs of
        [] \<Rightarrow> None
      | b # bs \<Rightarrow>
          if short \<le> b \<and> b < short + 16 then Some (word_of_nat (unat b - unat short), bs)
          else if b = h16 \<and> 2 \<le> length bs then Some (word_of_nat (unbe (take 2 bs)), drop 2 bs)
          else if b = h32 \<and> 4 \<le> length bs then Some (word_of_nat (unbe (take 4 bs)), drop 4 bs)
          else None)"

lemma bytes_str_inverse [simp]: "bytes_str (str_bytes s) = s"
  by (induction s) (simp_all add: bytes_str_def str_bytes_def byte_of_char_def)

lemma str_field_bytes [simp]: "str_field (length s) (str_bytes s @ rest) = Some (s, rest)"
  by (simp add: str_field_def)

lemma long_str_field_bytes:
  "length s < 256 ^ k \<Longrightarrow> long_str_field k (be k (length s) @ str_bytes s @ rest) = Some (s, rest)"
  by (simp add: long_str_field_def unbe_be)

lemma read_fixstr: "length k < 32 \<Longrightarrow> mp_read_string (fixstr k @ rest) = Some (k, rest)"
  by (simp add: fixstr_def word_less_nat_alt word_le_nat_alt unat_word_ariths)

lemma mp_read_string: "str_ok s \<Longrightarrow> mp_read_string (mp_string s @ rest) = Some (s, rest)"
  using read_fixstr [of s rest] long_str_field_bytes [of s _ rest]
  by (auto simp: mp_string_def str_ok_def Let_def word_less_nat_alt word_le_nat_alt simp del: be.simps)

lemma mp_obj_fixstr: "length k < 32 \<Longrightarrow> mp_obj (fixstr k)"
  by (simp add: mp_obj_def fixstr_def mp_head_def mp_shape_def Let_def unat_word_ariths)

lemma mp_obj_sized:
  "unbe (take 1 bs) + 1 = length bs \<Longrightarrow> mp_obj (0xd9 # bs)"
  "unbe (take 2 bs) + 2 = length bs \<Longrightarrow> mp_obj (0xda # bs)"
  "unbe (take 4 bs) + 4 = length bs \<Longrightarrow> mp_obj (0xdb # bs)"
  by (cases "bs = []"; simp add: mp_obj_def mp_head_def mp_shape_def)+

lemma mp_obj_string: "str_ok s \<Longrightarrow> mp_obj (mp_string s)"
  using mp_obj_fixstr [of s]
  by (auto simp: mp_string_def str_ok_def Let_def unbe_be mp_obj_sized simp del: be.simps)

lemma length_mp_string: "length (mp_string s) \<le> 5 + length s"
  by (simp add: mp_string_def fixstr_def Let_def del: be.simps)

lemma mp_read_string_ok: "mp_read_string bs = Some (s, rest) \<Longrightarrow> str_ok s"
proof (cases bs)
  case (Cons b bs')
  have 1: "str_field n cs = Some (s, rest) \<Longrightarrow> length s = n" for n cs
    by (auto simp: str_field_def bytes_str_def split: if_splits)
  have 2: "long_str_field k cs = Some (s, rest) \<Longrightarrow> length s < 256 ^ k" for k cs
    using 1 unbe_bound [of "take k cs"] by (auto simp: long_str_field_def min_def split: if_splits)
  assume "mp_read_string bs = Some (s, rest)"
  with Cons 1 2 [of 1] 2 [of 2] 2 [of 4] show ?thesis
    by (force simp: str_ok_def word_less_nat_alt split: if_splits)
qed simp

lemma read_short_header:
  assumes "n < 16" and "unat short + 16 < 256"
  shows "mp_read_header short h16 h32 ((short + word_of_nat n) # rest) = Some (word_of_nat n, rest)"
proof -
  have "unat (short + word_of_nat n) = unat short + n" "unat (short + 16) = unat short + 16"
    using assms by (simp_all add: unat_word_ariths)
  with assms(1) show ?thesis by (simp add: mp_read_header_def word_less_nat_alt word_le_nat_alt)
qed

lemma mp_obj_fixed:
  assumes "list_all mp_obj ws" and "mp_shape b = Fixed (length ws) 0"
  shows "mp_obj (b # concat ws)"
  using assms mp_skip_concat [OF assms(1), of 0 "[]"] by (simp add: mp_obj_def mp_head_def)

lemma mp_obj_fixarray: "list_all mp_obj ws \<Longrightarrow> length ws < 16 \<Longrightarrow> mp_obj ((0x90 + word_of_nat (length ws)) # concat ws)"
  by (rule mp_obj_fixed) (simp_all add: mp_shape_def Let_def unat_word_ariths)

lemma mp_obj_fixmap: "list_all mp_obj ws \<Longrightarrow> length ws = 2 * n \<Longrightarrow> n < 16 \<Longrightarrow> mp_obj ((0x80 + word_of_nat n) # concat ws)"
  by (rule mp_obj_fixed) (simp_all add: mp_shape_def Let_def unat_word_ariths)

section \<open>The instance: byte slices\<close>

datatype ref_error = ErrShortOrType | ErrRange | ErrClosed

definition ref_append :: "ref_error msgp_append" where
  "ref_append = \<lparr>
     AppendUint64 = (\<lambda>b v. b @ mp_uint (unat v)),
     AppendInt64 = (\<lambda>b v. b @ mp_int (sint v)),
     AppendUint32 = (\<lambda>b v. b @ mp_uint (unat v)),
     AppendString = (\<lambda>b s. b @ mp_string s),
     AppendNil = (\<lambda>b. b @ [nil_byte]),
     Require = (\<lambda>b n. b),
     Raw_MarshalMsg = (\<lambda>raw b. (b @ raw_form raw, None)),
     Raw_Msgsize = (\<lambda>raw. length (raw_form raw)),
     Uint64Size = 9, Int64Size = 9, Uint32Size = 5, StringPrefixSize = 5, NilSize = 1\<rparr>"

text \<open>A reader from a parser: on failure a default value, the source as it was, and an error.\<close>

definition parsed :: "'a \<Rightarrow> (bytes \<Rightarrow> ('a \<times> bytes) option) \<Rightarrow> bytes \<Rightarrow> 'a \<times> bytes \<times> ref_error goerr option" where
  "parsed dflt p bs =
     (case p bs of None \<Rightarrow> (dflt, bs, Some (Lib ErrShortOrType)) | Some (v, rest) \<Rightarrow> (v, rest, None))"

definition parsed_int :: "int \<Rightarrow> int \<Rightarrow> bytes \<Rightarrow> ('n::len word \<times> bytes) option" where
  "parsed_int lo hi bs =
     (case mp_read_int bs of
        Some (i, rest) \<Rightarrow> if lo \<le> i \<and> i < hi then Some (word_of_int i, rest) else None
      | None \<Rightarrow> None)"

definition ref_raw_read :: "bytes \<Rightarrow> bytes \<Rightarrow> bytes \<times> bytes \<times> ref_error goerr option" where
  "ref_raw_read raw bs =
     (case mp_skip 1 bs of
        None \<Rightarrow> (raw, bs, Some (Lib ErrShortOrType))
      | Some rest \<Rightarrow> (raw_kept (take (length bs - length rest) bs), rest, None))"

definition ref_in :: "(bytes, bytes, ref_error) msgp_in" where
  "ref_in = \<lparr>
     ReadArrayHeader = parsed 0 (mp_read_header 0x90 0xdc 0xdd),
     ReadMapHeader = parsed 0 (mp_read_header 0x80 0xde 0xdf),
     ReadMapKey = parsed '''' mp_read_string,
     ReadUint64 = parsed 0 (parsed_int 0 (2 ^ 64)),
     ReadInt64 = parsed 0 (parsed_int (- (2 ^ 63)) (2 ^ 63)),
     ReadUint32 = parsed 0 (parsed_int 0 (2 ^ 32)),
     ReadString = parsed '''' mp_read_string,
     IsNil = (\<lambda>bs. (bs \<noteq> [] \<and> hd bs = nil_byte, bs)),
     ReadNil = (\<lambda>bs. if bs \<noteq> [] \<and> hd bs = nil_byte then (tl bs, None) else (bs, Some (Lib ErrShortOrType))),
     Skip = (\<lambda>bs. case mp_skip 1 bs of None \<Rightarrow> (bs, Some (Lib ErrShortOrType)) | Some rest \<Rightarrow> (rest, None)),
     Raw_Read = ref_raw_read\<rparr>"

lemma parsed_reads:
  "(\<And>rest. p (enc @ rest) = Some (v, rest)) \<Longrightarrow> reads (\<lambda>s. s) (parsed dflt p) enc v"
  by (simp add: reads_def parsed_def)

lemma ref_raw_read_obj:
  "mp_obj w \<Longrightarrow> ref_raw_read raw (w @ rest) = (raw_kept w, rest, None)"
  by (simp add: ref_raw_read_def mp_skip_obj [unfolded One_nat_def])

lemma ref_raw_read_accepts:
  assumes "ref_raw_read raw s = (w, s', None)"
  shows "w = [] \<or> mp_obj w \<and> w \<noteq> [nil_byte]"
proof -
  obtain rest where r: "mp_skip 1 s = Some rest" and w: "w = raw_kept (take (length s - length rest) s)"
    using assms by (auto simp: ref_raw_read_def split: option.splits)
  from mp_skip_prefix [OF r] obtain x where "s = x @ rest" "mp_obj x"
    by (auto simp: mp_obj_def)
  with w show ?thesis by (auto simp: raw_kept_def)
qed

interpretation ref: msgp_encoding ref_append mp_obj
proof unfold_locales
  show "\<not> mp_obj []" by (simp add: mp_obj_def)
  show "mp_obj [nil_byte]" by (simp add: mp_obj_def mp_head_def mp_shape_def nil_byte_def)
  show "length (AppendUint32 ref_append [] u) \<le> Uint32Size ref_append" for u
    using unsigned_less [of u, where ?'a = nat] by (simp add: ref_append_def length_mp_uint)
qed (simp_all add: ref_append_def length_mp_uint length_mp_int length_mp_string
      mp_obj_uint mp_obj_int mp_obj_string mp_obj_fixstr mp_obj_fixarray mp_obj_fixmap)

lemma ref_read_header:
  "n < 16 \<Longrightarrow> mp_read_header 0x90 0xdc 0xdd ((0x90 + word_of_nat n) # rest) = Some (word_of_nat n, rest)"
  "n < 16 \<Longrightarrow> mp_read_header 0x80 0xde 0xdf ((0x80 + word_of_nat n) # rest) = Some (word_of_nat n, rest)"
  by (rule read_short_header; simp)+

lemma ref_read_numbers:
  "parsed_int 0 (2 ^ 64) (mp_uint (unat v) @ rest) = Some (v :: u64, rest)"
  "parsed_int (- (2 ^ 63)) (2 ^ 63) (mp_int (sint i) @ rest) = Some (i :: i64, rest)"
  "parsed_int 0 (2 ^ 32) (mp_uint (unat u) @ rest) = Some (u :: u32, rest)"
proof -
  have "unat v < 2 ^ 64" "unat u < 2 ^ 32" "uint v < 2 ^ 64" "uint u < 2 ^ 32"
    using unsigned_less [of v, where ?'a = nat] unsigned_less [of u, where ?'a = nat]
      unsigned_less [of v, where ?'a = int] unsigned_less [of u, where ?'a = int] by simp_all
  then show "parsed_int 0 (2 ^ 64) (mp_uint (unat v) @ rest) = Some (v, rest)"
    "parsed_int 0 (2 ^ 32) (mp_uint (unat u) @ rest) = Some (u, rest)"
    by (simp_all add: parsed_int_def mp_read_uint)
  have "- (2 ^ 63) \<le> sint i" "sint i < 2 ^ 63"
    using sint_greater_eq [of i] sint_less [of i] by simp_all
  then show "parsed_int (- (2 ^ 63)) (2 ^ 63) (mp_int (sint i) @ rest) = Some (i, rest)"
    by (simp add: parsed_int_def mp_read_int)
qed

interpretation ref: msgp_decoding ref_append mp_obj ref_in "\<lambda>s. s"
proof unfold_locales
  show "\<exists>s'. IsNil ref_in s = (b = nil_byte, s') \<and> s' = s" if "s = b # rest" for s b rest
    using that by (auto simp: ref_in_def)
  show "reads (\<lambda>s. s) (Raw_Read ref_in raw) w (raw_kept w)" if "mp_obj w" for w raw
    using that by (simp add: reads_def ref_in_def ref_raw_read_obj)
qed (simp_all add: ref_in_def ref_append_def parsed_reads ref_read_header
      ref_read_numbers [simplified] mp_read_string read_fixstr mp_skip_obj [unfolded One_nat_def])

interpretation ref: msgp_accepting ref_append mp_obj ref_in "\<lambda>s. s"
proof unfold_locales
  show "str_ok v" if "ReadString ref_in s = (v, s', None)" for s v s'
    using that mp_read_string_ok by (auto simp: ref_in_def parsed_def split: option.splits)
  show "w = [] \<or> mp_obj w \<and> w \<noteq> [nil_byte]" if "Raw_Read ref_in raw s = (w, s', None)" for raw s w s'
    using that ref_raw_read_accepts by (simp add: ref_in_def)
qed (auto simp: ref_in_def ref_raw_read_def split: option.splits)

section \<open>The instance: streams\<close>

text \<open>A reader over a connection that delivers its bytes in chunks of any size.\<close>

definition on_chunks :: "(bytes \<Rightarrow> 'a \<times> bytes \<times> 'e goerr option) \<Rightarrow> bytes list \<Rightarrow> 'a \<times> bytes list \<times> 'e goerr option" where
  "on_chunks f cs = (case f (concat cs) of (v, rest, err) \<Rightarrow> (v, [rest], err))"

definition ref_reader :: "(bytes list, bytes, ref_error) msgp_in" where
  "ref_reader = \<lparr>
     ReadArrayHeader = on_chunks (ReadArrayHeader ref_in),
     ReadMapHeader = on_chunks (ReadMapHeader ref_in),
     ReadMapKey = on_chunks (ReadMapKey ref_in),
     ReadUint64 = on_chunks (ReadUint64 ref_in),
     ReadInt64 = on_chunks (ReadInt64 ref_in),
     ReadUint32 = on_chunks (ReadUint32 ref_in),
     ReadString = on_chunks (ReadString ref_in),
     IsNil = (\<lambda>cs. (fst (IsNil ref_in (concat cs)), cs)),
     ReadNil = (\<lambda>cs. case ReadNil ref_in (concat cs) of (rest, err) \<Rightarrow> ([rest], err)),
     Skip = (\<lambda>cs. case Skip ref_in (concat cs) of (rest, err) \<Rightarrow> ([rest], err)),
     Raw_Read = (\<lambda>raw. on_chunks (Raw_Read ref_in raw))\<rparr>"

lemma on_chunks_reads: "reads (\<lambda>s. s) f enc v \<Longrightarrow> reads concat (on_chunks f) enc v"
  by (auto simp: reads_def on_chunks_def)

lemma on_chunks_None: "on_chunks f cs = (v, cs', None) \<longleftrightarrow> (\<exists>rest. f (concat cs) = (v, rest, None) \<and> cs' = [rest])"
  by (auto simp: on_chunks_def split: prod.splits)

interpretation ref_stream: msgp_accepting ref_append mp_obj ref_reader concat
proof unfold_locales
  show "\<exists>s'. IsNil ref_reader s = (b = nil_byte, s') \<and> concat s' = concat s" if "concat s = b # rest" for s b rest
    using ref.is_nil [OF that] that by (simp add: ref_reader_def ref_in_def del: concat_eq_Nil_conv)
  show "\<exists>s'. ReadNil ref_reader s = (s', None) \<and> concat s' = rest" if "concat s = nil_byte # rest" for s rest
    using that ref.read_nil by (auto simp: ref_reader_def)
  show "\<exists>s'. Skip ref_reader s = (s', None) \<and> concat s' = rest" if "mp_obj w" "concat s = w @ rest" for w s rest
    using ref.skip [OF that] by (auto simp: ref_reader_def)
  show "str_ok v" if "ReadString ref_reader s = (v, s', None)" for s v s'
    using that ref.accepts_string by (auto simp: ref_reader_def on_chunks_None)
  show "w = [] \<or> mp_obj w \<and> w \<noteq> [nil_byte]" if "Raw_Read ref_reader raw s = (w, s', None)" for raw s w s'
    using that ref.accepts_raw by (auto simp: ref_reader_def on_chunks_None)
  show "Raw_Read ref_reader raw' s = (w, s', None)" if "Raw_Read ref_reader raw s = (w, s', None)" for raw s w s' raw'
    using that ref.raw_receiver_value [of raw "concat s" w _ raw'] by (auto simp: ref_reader_def on_chunks_None)
  show "snd (Raw_Read ref_reader raw s) = snd (Raw_Read ref_reader raw' s)" for raw s raw'
    using ref.raw_receiver [of raw "concat s" raw']
    by (simp add: ref_reader_def on_chunks_def case_prod_beta)
qed (simp_all add: ref_reader_def on_chunks_reads ref.read_array_header ref.read_map_header
      ref.read_map_key ref.read_uint64 ref.read_int64 ref.read_uint32 ref.read_string ref.read_raw)

text \<open>A buffering writer whose connection takes \<open>room\<close> bytes and then fails.\<close>

record ref_writer =
  buffered :: bytes
  delivered :: bytes
  room :: nat

definition ref_put :: "ref_writer \<Rightarrow> bytes \<Rightarrow> ref_writer \<times> ref_error goerr option" where
  "ref_put w b =
     (if length (buffered w) + length b \<le> room w then (w\<lparr>buffered := buffered w @ b\<rparr>, None)
      else (w, Some (Lib ErrClosed)))"

definition ref_flush :: "ref_writer \<Rightarrow> ref_writer \<times> ref_error goerr option" where
  "ref_flush w =
     (if length (buffered w) \<le> room w
      then (w\<lparr>buffered := [], delivered := delivered w @ buffered w, room := room w - length (buffered w)\<rparr>, None)
      else (w, Some (Lib ErrClosed)))"

definition ref_out :: "(ref_writer, ref_error) msgp_out" where
  "ref_out = \<lparr>
     Append = ref_put,
     WriteUint64 = (\<lambda>w v. ref_put w (mp_uint (unat v))),
     WriteInt64 = (\<lambda>w v. ref_put w (mp_int (sint v))),
     WriteUint32 = (\<lambda>w v. ref_put w (mp_uint (unat v))),
     WriteString = (\<lambda>w s. ref_put w (mp_string s)),
     WriteNil = (\<lambda>w. ref_put w [nil_byte]),
     Raw_EncodeMsg = (\<lambda>raw w. ref_put w (raw_form raw)),
     Flush = ref_flush\<rparr>"

definition ref_written :: "ref_writer \<Rightarrow> bytes" where
  "ref_written w = delivered w @ buffered w"

lemma ref_put_writes: "writes ref_written (\<lambda>w. ref_put w b) b"
  by (auto simp: writes_def ref_put_def ref_written_def split: if_splits)

interpretation ref_stream: msgp_writing ref_append mp_obj ref_out ref_written delivered
proof unfold_locales
  show "ref_written w' = ref_written w \<and> delivered w' = ref_written w"
    if "Flush ref_out w = (w', None)" for w w'
    using that by (auto simp: ref_out_def ref_flush_def ref_written_def split: if_splits)
qed (simp_all add: ref_out_def ref_append_def ref_put_writes)

text \<open>Rules that evaluate the reference encoder on closed values.\<close>

lemmas ref_eval = ref_append_def mp_uint_def mp_int_def mp_string_def fixstr_def str_bytes_def
  byte_of_char_def raw_form_def nil_byte_def

lemma be_numeral [simp]: "be (numeral k) v = be (pred_numeral k) (v div 256) @ [word_of_nat v]"
  by (simp only: numeral_eq_Suc [of k] be.simps)

end
