(* ===== verification/Mpc_Gen.thy ===== *)
theory Mpc_Gen
  imports Msgp
begin

text \<open>
  The wire types of \<open>mpc/mpc.go\<close> and their generated codec, \<open>mpc/mpc_gen.go\<close>: both tuple
  types, \<open>Error\<close> and \<open>Message\<close>, with all five methods each. \<open>Message\<close> is polymorphic in the
  representation of its two raw payloads: byte lists here, slices of the store in \<open>Mpc\<close>.

  The decoding methods return the receiver they leave behind, the source and the error; the
  receiver is returned on failure too, because the codecs decode into the same message again.
\<close>

section \<open>Types\<close>

record mpc_error =
  Msg :: string

record 'raw message =
  ID :: u64
  Func :: string
  Args :: 'raw
  Result :: 'raw
  Error :: "mpc_error option"

definition new_Error :: mpc_error where
  "new_Error = \<lparr>Msg = ''''\<rparr>"

section \<open>Error\<close>

definition Error_Msgsize :: "'e msgp_append \<Rightarrow> mpc_error \<Rightarrow> nat" where
  "Error_Msgsize A z = 1 + StringPrefixSize A + length (Msg z)"

definition Error_MarshalMsg :: "'e msgp_append \<Rightarrow> mpc_error \<Rightarrow> bytes \<Rightarrow> bytes \<times> 'e goerr option" where
  "Error_MarshalMsg A z b =
     (let ob = Require A b (Error_Msgsize A z);
          ob = ob @ [0x91];
          ob = AppendString A ob (Msg z)
      in (ob, None))"

definition Error_EncodeMsg :: "('w, 'e) msgp_out \<Rightarrow> mpc_error \<Rightarrow> 'w \<Rightarrow> 'w \<times> 'e goerr option" where
  "Error_EncodeMsg W z en =
     (let (en, err) = Append W en [0x91] in
      if err \<noteq> None then (en, err) else
      let (en, err) = WriteString W en (Msg z) in
      if err \<noteq> None then (en, wrap err [''Msg'']) else
      (en, None))"

definition Error_DecodeMsg ::
    "('s, 'raw, 'e) msgp_in \<Rightarrow> mpc_error \<Rightarrow> 's \<Rightarrow> mpc_error \<times> 's \<times> 'e goerr option" where
  "Error_DecodeMsg S z dc =
     (let (zb0001, dc, err) = ReadArrayHeader S dc in
      if err \<noteq> None then (z, dc, wrap err []) else
      if zb0001 \<noteq> 1 then (z, dc, Some (ArrayError 1 zb0001)) else
      let (v, dc, err) = ReadString S dc; z = z\<lparr>Msg := v\<rparr> in
      if err \<noteq> None then (z, dc, wrap err [''Msg'']) else
      (z, dc, None))"

definition Error_UnmarshalMsg ::
    "(bytes, 'raw, 'e) msgp_in \<Rightarrow> mpc_error \<Rightarrow> bytes \<Rightarrow> mpc_error \<times> bytes \<times> 'e goerr option" where
  "Error_UnmarshalMsg S z bts =
     (let (zb0001, bts, err) = ReadArrayHeader S bts in
      if err \<noteq> None then (z, [], wrap err []) else
      if zb0001 \<noteq> 1 then (z, [], Some (ArrayError 1 zb0001)) else
      let (v, bts, err) = ReadString S bts; z = z\<lparr>Msg := v\<rparr> in
      if err \<noteq> None then (z, [], wrap err [''Msg'']) else
      (z, bts, None))"

section \<open>Message: encoding\<close>

definition Message_Msgsize :: "'e msgp_append \<Rightarrow> bytes message \<Rightarrow> nat" where
  "Message_Msgsize A z =
     (let s = 1 + Uint64Size A + StringPrefixSize A + length (Func z)
                + Raw_Msgsize A (Args z) + Raw_Msgsize A (Result z)
      in case Error z of
           None \<Rightarrow> s + NilSize A
         | Some e \<Rightarrow> s + (1 + StringPrefixSize A + length (Msg e)))"

definition Message_MarshalMsg ::
    "'e msgp_append \<Rightarrow> bytes message \<Rightarrow> bytes \<Rightarrow> bytes \<times> 'e goerr option" where
  "Message_MarshalMsg A z b =
     (let ob = Require A b (Message_Msgsize A z);
          ob = ob @ [0x95];
          ob = AppendUint64 A ob (ID z);
          ob = AppendString A ob (Func z);
          (ob, err) = Raw_MarshalMsg A (Args z) ob in
      if err \<noteq> None then (ob, wrap err [''Args'']) else
      let (ob, err) = Raw_MarshalMsg A (Result z) ob in
      if err \<noteq> None then (ob, wrap err [''Result'']) else
      case Error z of
        None \<Rightarrow> (AppendNil A ob, None)
      | Some e \<Rightarrow>
          (let ob = ob @ [0x91]; ob = AppendString A ob (Msg e) in (ob, None)))"

definition Message_EncodeMsg ::
    "('w, 'e) msgp_out \<Rightarrow> bytes message \<Rightarrow> 'w \<Rightarrow> 'w \<times> 'e goerr option" where
  "Message_EncodeMsg W z en =
     (let (en, err) = Append W en [0x95] in
      if err \<noteq> None then (en, err) else
      let (en, err) = WriteUint64 W en (ID z) in
      if err \<noteq> None then (en, wrap err [''ID'']) else
      let (en, err) = WriteString W en (Func z) in
      if err \<noteq> None then (en, wrap err [''Func'']) else
      let (en, err) = Raw_EncodeMsg W (Args z) en in
      if err \<noteq> None then (en, wrap err [''Args'']) else
      let (en, err) = Raw_EncodeMsg W (Result z) en in
      if err \<noteq> None then (en, wrap err [''Result'']) else
      case Error z of
        None \<Rightarrow>
          (let (en, err) = WriteNil W en in
           if err \<noteq> None then (en, err) else (en, None))
      | Some e \<Rightarrow>
          (let (en, err) = Append W en [0x91] in
           if err \<noteq> None then (en, err) else
           let (en, err) = WriteString W en (Msg e) in
           if err \<noteq> None then (en, wrap err [''Error'', ''Msg'']) else
           (en, None)))"

section \<open>Message: decoding\<close>

text \<open>The error element of the tuple, when it is not nil: decoded in place.\<close>

definition Message_decode_Error ::
    "('s, 'raw, 'e) msgp_in \<Rightarrow> 'raw message \<Rightarrow> 's \<Rightarrow> 'raw message \<times> 's \<times> 'e goerr option" where
  "Message_decode_Error S z dc =
     (let z = (if Error z = None then z\<lparr>Error := Some new_Error\<rparr> else z);
          (zb0002, dc, err) = ReadArrayHeader S dc in
      if err \<noteq> None then (z, dc, wrap err [''Error'']) else
      if zb0002 \<noteq> 1 then (z, dc, Some (ArrayError 1 zb0002)) else
      let (v, dc, err) = ReadString S dc;
          z = z\<lparr>Error := map_option (\<lambda>e. e\<lparr>Msg := v\<rparr>) (Error z)\<rparr> in
      if err \<noteq> None then (z, dc, wrap err [''Error'', ''Msg'']) else
      (z, dc, None))"

definition Message_DecodeMsg ::
    "('s, 'raw, 'e) msgp_in \<Rightarrow> 'raw message \<Rightarrow> 's \<Rightarrow> 'raw message \<times> 's \<times> 'e goerr option" where
  "Message_DecodeMsg S z dc =
     (let (zb0001, dc, err) = ReadArrayHeader S dc in
      if err \<noteq> None then (z, dc, wrap err []) else
      if zb0001 \<noteq> 5 then (z, dc, Some (ArrayError 5 zb0001)) else
      let (v, dc, err) = ReadUint64 S dc; z = z\<lparr>ID := v\<rparr> in
      if err \<noteq> None then (z, dc, wrap err [''ID'']) else
      let (v, dc, err) = ReadString S dc; z = z\<lparr>Func := v\<rparr> in
      if err \<noteq> None then (z, dc, wrap err [''Func'']) else
      let (v, dc, err) = Raw_Read S (Args z) dc; z = z\<lparr>Args := v\<rparr> in
      if err \<noteq> None then (z, dc, wrap err [''Args'']) else
      let (v, dc, err) = Raw_Read S (Result z) dc; z = z\<lparr>Result := v\<rparr> in
      if err \<noteq> None then (z, dc, wrap err [''Result'']) else
      let (isnil, dc) = IsNil S dc in
      if isnil then
        let (dc, err) = ReadNil S dc in
        if err \<noteq> None then (z, dc, wrap err [''Error'']) else (z\<lparr>Error := None\<rparr>, dc, None)
      else Message_decode_Error S z dc)"

text \<open>
  \<open>UnmarshalMsg\<close> differs in one place: a failure to read the nil of the error element is
  returned unwrapped. Its result \<open>o\<close> is nil unless every element was read;
  \<open>Message_unmarshal\<close> is its body, before the assignment of \<open>o\<close>.
\<close>

definition Message_unmarshal ::
    "('s, 'raw, 'e) msgp_in \<Rightarrow> 'raw message \<Rightarrow> 's \<Rightarrow> 'raw message \<times> 's \<times> 'e goerr option" where
  "Message_unmarshal S z bts =
     (let (zb0001, bts, err) = ReadArrayHeader S bts in
      if err \<noteq> None then (z, bts, wrap err []) else
      if zb0001 \<noteq> 5 then (z, bts, Some (ArrayError 5 zb0001)) else
      let (v, bts, err) = ReadUint64 S bts; z = z\<lparr>ID := v\<rparr> in
      if err \<noteq> None then (z, bts, wrap err [''ID'']) else
      let (v, bts, err) = ReadString S bts; z = z\<lparr>Func := v\<rparr> in
      if err \<noteq> None then (z, bts, wrap err [''Func'']) else
      let (v, bts, err) = Raw_Read S (Args z) bts; z = z\<lparr>Args := v\<rparr> in
      if err \<noteq> None then (z, bts, wrap err [''Args'']) else
      let (v, bts, err) = Raw_Read S (Result z) bts; z = z\<lparr>Result := v\<rparr> in
      if err \<noteq> None then (z, bts, wrap err [''Result'']) else
      let (isnil, bts) = IsNil S bts in
      if isnil then
        let (bts, err) = ReadNil S bts in
        if err \<noteq> None then (z, bts, err) else (z\<lparr>Error := None\<rparr>, bts, None)
      else Message_decode_Error S z bts)"

definition Message_UnmarshalMsg ::
    "(bytes, 'raw, 'e) msgp_in \<Rightarrow> 'raw message \<Rightarrow> bytes \<Rightarrow> 'raw message \<times> bytes \<times> 'e goerr option" where
  "Message_UnmarshalMsg S z bts =
     (let (z, bts, err) = Message_unmarshal S z bts
      in (z, (if err = None then bts else []), err))"

text \<open>On success the two decoders are one function; only an error can tell them apart.\<close>

lemma Message_unmarshal_eq_DecodeMsg:
  "Message_unmarshal S z s = (z', s', None) \<longleftrightarrow> Message_DecodeMsg S z s = (z', s', None)"
  unfolding Message_unmarshal_def Message_DecodeMsg_def Let_def
  by (simp split: prod.split)

section \<open>The wire format as a specification\<close>

text \<open>
  The README's wire format: a five element array \<open>[id, fn, args, result, error]\<close>, an error
  being a one element array or nil. \<open>message_ok\<close> is the condition under which a message can
  be sent at all: strings of a length MessagePack can carry, and payloads that are one object.
\<close>

definition error_form :: "'e msgp_append \<Rightarrow> mpc_error option \<Rightarrow> bytes" where
  "error_form A err =
     (case err of None \<Rightarrow> [nil_byte] | Some e \<Rightarrow> [0x91] @ AppendString A [] (Msg e))"

definition message_form :: "'e msgp_append \<Rightarrow> bytes message \<Rightarrow> bytes" where
  "message_form A m =
     [0x95] @ AppendUint64 A [] (ID m) @ AppendString A [] (Func m) @
     raw_form (Args m) @ raw_form (Result m) @ error_form A (Error m)"

definition raw_ok :: "(bytes \<Rightarrow> bool) \<Rightarrow> bytes \<Rightarrow> bool" where
  "raw_ok obj w \<longleftrightarrow> w = [] \<or> obj w \<and> w \<noteq> [nil_byte]"

definition message_ok :: "(bytes \<Rightarrow> bool) \<Rightarrow> bytes message \<Rightarrow> bool" where
  "message_ok obj m \<longleftrightarrow>
     str_ok (Func m) \<and> raw_ok obj (Args m) \<and> raw_ok obj (Result m) \<and>
     (\<forall>e. Error m = Some e \<longrightarrow> str_ok (Msg e))"

lemma raw_ok_empty [simp]: "raw_ok obj []"
  by (simp add: raw_ok_def)

lemma raw_kept_form_ok [simp]: "raw_ok obj w \<Longrightarrow> raw_kept (raw_form w) = w"
  by (auto simp: raw_ok_def raw_form_def raw_kept_def)

lemma nil_byte_neq_fixarray1 [simp]: "(0x91 :: u8) \<noteq> nil_byte"
  by (simp add: nil_byte_def)

context msgp_encoding
begin

lemma obj_raw_form: "raw_ok obj w \<Longrightarrow> obj (raw_form w)"
  using obj_nil by (auto simp: raw_ok_def raw_form_def)

lemma Error_MarshalMsg_form: "Error_MarshalMsg A z b = (b @ error_form A (Some z), None)"
  by (simp add: Error_MarshalMsg_def error_form_def require)

lemma Message_MarshalMsg_form: "Message_MarshalMsg A z b = (b @ message_form A z, None)"
  by (auto simp: Message_MarshalMsg_def message_form_def error_form_def require raw_marshal
      append_nil Let_def split: option.splits)

lemma obj_error_form: "(\<And>e. err = Some e \<Longrightarrow> str_ok (Msg e)) \<Longrightarrow> obj (error_form A err)"
  using obj_fixarray [of "[AppendString A [] (Msg (the err))]"] obj_string obj_nil
  by (auto simp: error_form_def split: option.splits)

lemma obj_message_form:
  assumes "message_ok obj m"
  shows "obj (message_form A m)"
proof -
  let ?parts = "[AppendUint64 A [] (ID m), AppendString A [] (Func m),
    raw_form (Args m), raw_form (Result m), error_form A (Error m)]"
  have "list_all obj ?parts"
    using assms obj_uint64 obj_string obj_raw_form obj_error_form by (simp add: message_ok_def)
  from obj_fixarray [OF this] show ?thesis by (simp add: message_form_def)
qed

lemma length_error_form:
  assumes "\<And>e. err = Some e \<Longrightarrow> str_ok (Msg e)"
  shows "length (error_form A err) \<le>
    (case err of None \<Rightarrow> NilSize A | Some e \<Rightarrow> 1 + StringPrefixSize A + length (Msg e))"
  using assms size_nil size_string by (auto simp: error_form_def split: option.splits)

lemma length_message_form:
  assumes "message_ok obj m"
  shows "length (message_form A m) \<le> Message_Msgsize A m"
proof -
  have "length (AppendString A [] (Func m)) \<le> StringPrefixSize A + length (Func m)"
    using assms size_string by (simp add: message_ok_def)
  moreover have "length (error_form A (Error m)) \<le>
      (case Error m of None \<Rightarrow> NilSize A | Some e \<Rightarrow> 1 + StringPrefixSize A + length (Msg e))"
    using assms by (intro length_error_form) (simp add: message_ok_def)
  ultimately show ?thesis
    using size_uint64 [of "ID m"] size_raw [of "Args m"] size_raw [of "Result m"]
    unfolding message_form_def Message_Msgsize_def Let_def length_append
    by (cases "Error m") (simp_all only: option.case length_append list.size)
qed

end

section \<open>Decoding inverts the format\<close>

context msgp_decoding
begin

lemma read_raw_form:
  assumes "raw_ok obj w"
  shows "reads view (Raw_Read S raw) (raw_form w) w"
  using read_raw [OF obj_raw_form [OF assms], of raw] assms by simp

lemma read_array_header_1: "reads view (ReadArrayHeader S) [0x91] 1"
  using read_array_header [of 1] by simp

lemma read_array_header_5: "reads view (ReadArrayHeader S) [0x95] 5"
  using read_array_header [of 5] by simp

text \<open>The five elements one after the other, for any receivers of the two payloads.\<close>

lemma message_elements:
  assumes "message_ok obj m" and "view s = message_form A m @ rest"
  obtains s0 s1 s2 s3 s4 where
    "ReadArrayHeader S s = (5, s0, None)" and "ReadUint64 S s0 = (ID m, s1, None)" and
    "ReadString S s1 = (Func m, s2, None)" and "Raw_Read S ra s2 = (Args m, s3, None)" and
    "Raw_Read S rb s3 = (Result m, s4, None)" and "view s4 = error_form A (Error m) @ rest"
proof -
  have ok: "str_ok (Func m)" "raw_ok obj (Args m)" "raw_ok obj (Result m)"
    using assms(1) by (simp_all add: message_ok_def)
  obtain s0 where s0: "ReadArrayHeader S s = (5, s0, None)"
    "view s0 = AppendUint64 A [] (ID m) @ AppendString A [] (Func m) @ raw_form (Args m) @
       raw_form (Result m) @ error_form A (Error m) @ rest"
    using assms(2) by (auto simp: message_form_def intro: readsE [OF read_array_header_5])
  obtain s1 where s1: "ReadUint64 S s0 = (ID m, s1, None)"
    "view s1 = AppendString A [] (Func m) @ raw_form (Args m) @
       raw_form (Result m) @ error_form A (Error m) @ rest"
    by (rule readsE [OF read_uint64 s0(2)])
  obtain s2 where s2: "ReadString S s1 = (Func m, s2, None)"
    "view s2 = raw_form (Args m) @ raw_form (Result m) @ error_form A (Error m) @ rest"
    by (rule readsE [OF read_string [OF ok(1)] s1(2)])
  obtain s3 where s3: "Raw_Read S ra s2 = (Args m, s3, None)"
    "view s3 = raw_form (Result m) @ error_form A (Error m) @ rest"
    by (rule readsE [OF read_raw_form [OF ok(2)] s2(2)])
  obtain s4 where "Raw_Read S rb s3 = (Result m, s4, None)"
    "view s4 = error_form A (Error m) @ rest"
    by (rule readsE [OF read_raw_form [OF ok(3)] s3(2)])
  with s0(1) s1(1) s2(1) s3(1) that show thesis by blast
qed

lemma error_element:
  assumes "str_ok (Msg e)"
  shows "reads view (Message_decode_Error S z) (error_form A (Some e)) (z\<lparr>Error := Some e\<rparr>)"
proof (rule readsI)
  fix s rest
  assume "view s = error_form A (Some e) @ rest"
  then obtain s0 where s0: "ReadArrayHeader S s = (1, s0, None)"
    "view s0 = AppendString A [] (Msg e) @ rest"
    by (auto simp: error_form_def intro: readsE [OF read_array_header_1])
  obtain s1 where "ReadString S s0 = (Msg e, s1, None)" "view s1 = rest"
    by (rule readsE [OF read_string [OF assms] s0(2)])
  with s0(1) show "\<exists>s'. Message_decode_Error S z s = (z\<lparr>Error := Some e\<rparr>, s', None) \<and> view s' = rest"
    by (auto simp: Message_decode_Error_def split: option.splits)
qed

lemma nil_element:
  assumes "view s = error_form A None @ rest"
  obtains s0 s1 where "IsNil S s = (True, s0)" and "ReadNil S s0 = (s1, None)" and "view s1 = rest"
proof -
  obtain s0 where s0: "IsNil S s = (True, s0)" "view s0 = nil_byte # rest"
    using assms is_nil [of s nil_byte rest] by (auto simp: error_form_def)
  with read_nil [of s0 rest] that show thesis by blast
qed

lemma not_nil_element:
  assumes "view s = error_form A (Some e) @ rest"
  obtains s0 where "IsNil S s = (False, s0)" and "view s0 = error_form A (Some e) @ rest"
  using assms is_nil [of s "0x91" "AppendString A [] (Msg e) @ rest"] that
  by (auto simp: error_form_def)

lemma Message_DecodeMsg_reads:
  assumes "message_ok obj m"
  shows "reads view (Message_DecodeMsg S z) (message_form A m) m"
proof (rule readsI)
  fix s rest
  assume s: "view s = message_form A m @ rest"
  obtain s0 s1 s2 s3 s4 where elems:
    "ReadArrayHeader S s = (5, s0, None)" "ReadUint64 S s0 = (ID m, s1, None)"
    "ReadString S s1 = (Func m, s2, None)" "Raw_Read S (Args z) s2 = (Args m, s3, None)"
    "Raw_Read S (Result z) s3 = (Result m, s4, None)" and s4: "view s4 = error_form A (Error m) @ rest"
    by (rule message_elements [OF assms s, of "Args z" "Result z"])
  let ?z = "z\<lparr>ID := ID m, Func := Func m, Args := Args m, Result := Result m\<rparr>"
  have z: "?z\<lparr>Error := Error m\<rparr> = m" by (intro message.equality) simp_all
  show "\<exists>s'. Message_DecodeMsg S z s = (m, s', None) \<and> view s' = rest"
  proof (cases "Error m")
    case None
    with s4 obtain s5 s6 where "IsNil S s4 = (True, s5)" "ReadNil S s5 = (s6, None)" "view s6 = rest"
      by (auto elim: nil_element)
    with elems z None show ?thesis by (simp add: Message_DecodeMsg_def)
  next
    case (Some e)
    with s4 obtain s5 where s5: "IsNil S s4 = (False, s5)" "view s5 = error_form A (Some e) @ rest"
      by (auto elim: not_nil_element)
    have "str_ok (Msg e)" using assms Some by (simp add: message_ok_def)
    then obtain s6 where "Message_decode_Error S ?z s5 = (m, s6, None)" "view s6 = rest"
      using readsE [OF error_element s5(2), of ?z] z Some by metis
    with elems s5(1) show ?thesis by (simp add: Message_DecodeMsg_def)
  qed
qed

lemma Message_unmarshal_reads:
  assumes "message_ok obj m"
  shows "reads view (Message_unmarshal S z) (message_form A m) m"
  using Message_DecodeMsg_reads [OF assms, of z]
  by (auto simp: reads_def Message_unmarshal_eq_DecodeMsg)

end

section \<open>What the decoders accept, and what they keep of the receiver\<close>

text \<open>
  A successful decode, spelled out: the reads it made, in order. The receiver only shows in the
  two payloads.
\<close>

definition error_decodes ::
    "('s, 'raw, 'e) msgp_in \<Rightarrow> 's \<Rightarrow> mpc_error option \<Rightarrow> 's \<Rightarrow> bool" where
  "error_decodes S s err s' \<longleftrightarrow>
     (\<exists>s1. IsNil S s = (True, s1) \<and> ReadNil S s1 = (s', None) \<and> err = None) \<or>
     (\<exists>s1 s2 v. IsNil S s = (False, s1) \<and> ReadArrayHeader S s1 = (1, s2, None) \<and>
        ReadString S s2 = (v, s', None) \<and> err = Some \<lparr>Msg = v\<rparr>)"

definition message_decodes ::
    "('s, 'raw, 'e) msgp_in \<Rightarrow> 'raw \<Rightarrow> 'raw \<Rightarrow> 's \<Rightarrow> 'raw message \<Rightarrow> 's \<Rightarrow> bool" where
  "message_decodes S ra rb s m s' \<longleftrightarrow>
     (\<exists>s0 s1 s2 s3 s4. ReadArrayHeader S s = (5, s0, None) \<and> ReadUint64 S s0 = (ID m, s1, None) \<and>
        ReadString S s1 = (Func m, s2, None) \<and> Raw_Read S ra s2 = (Args m, s3, None) \<and>
        Raw_Read S rb s3 = (Result m, s4, None) \<and> error_decodes S s4 (Error m) s')"

lemma decode_Error_iff:
  "Message_decode_Error S z s = (m, s', None) \<longleftrightarrow>
     (\<exists>s2 v. ReadArrayHeader S s = (1, s2, None) \<and> ReadString S s2 = (v, s', None) \<and>
        m = z\<lparr>Error := Some \<lparr>Msg = v\<rparr>\<rparr>)"
  by (auto simp: Message_decode_Error_def new_Error_def Let_def split: prod.splits if_splits)

lemma message_with_fields:
  "m = z\<lparr>ID := a, Func := b, Args := c, Result := d, Error := e\<rparr> \<longleftrightarrow>
     ID m = a \<and> Func m = b \<and> Args m = c \<and> Result m = d \<and> Error m = e" for m z :: "'raw message"
  by (auto intro: message.equality)

lemma Message_DecodeMsg_iff:
  "Message_DecodeMsg S z s = (m, s', None) \<longleftrightarrow> message_decodes S (Args z) (Result z) s m s'"
proof
  assume "Message_DecodeMsg S z s = (m, s', None)"
  then show "message_decodes S (Args z) (Result z) s m s'"
    by (auto simp: Message_DecodeMsg_def message_decodes_def error_decodes_def Let_def
        decode_Error_iff message_with_fields split: prod.splits if_splits)
next
  assume "message_decodes S (Args z) (Result z) s m s'"
  then show "Message_DecodeMsg S z s = (m, s', None)"
    by (auto simp: Message_DecodeMsg_def message_decodes_def error_decodes_def Let_def
        decode_Error_iff message_with_fields)
qed

context msgp_accepting
begin

lemma accepts_raw_ok: "Raw_Read S raw s = (w, s', None) \<Longrightarrow> raw_ok obj w"
  using accepts_raw by (simp add: raw_ok_def)

lemma Message_DecodeMsg_accepts:
  "Message_DecodeMsg S z s = (m, s', None) \<Longrightarrow> message_ok obj m"
  by (auto simp: Message_DecodeMsg_iff message_decodes_def error_decodes_def message_ok_def
      dest: accepts_string accepts_raw_ok)

lemma Message_DecodeMsg_receiver:
  "Message_DecodeMsg S z s = (m, s', None) \<Longrightarrow> Message_DecodeMsg S z' s = (m, s', None)"
  unfolding Message_DecodeMsg_iff message_decodes_def by (blast intro: raw_receiver_value)

end

section \<open>Encoding to a stream\<close>

context msgp_writing
begin

lemmas write_dests = writesD [OF write_bytes] writesD [OF write_uint64] writesD [OF write_int64]
  writesD [OF write_uint32] writesD [OF write_string] writesD [OF write_nil] writesD [OF write_raw]

lemma Message_EncodeMsg_writes: "writes out (Message_EncodeMsg W m) (message_form A m)"
  unfolding writes_def Message_EncodeMsg_def message_form_def error_form_def Let_def
  by (auto dest!: write_dests split: prod.splits if_splits option.splits)

lemma Error_EncodeMsg_writes: "writes out (Error_EncodeMsg W e) (error_form A (Some e))"
  unfolding writes_def Error_EncodeMsg_def error_form_def Let_def
  by (auto dest!: write_dests split: prod.splits if_splits)

end

end
