(* ===== verification/Wire.thy ===== *)
theory Wire
  imports Mpc_Gen Msgpack_Ref
begin

text \<open>
  Properties of the wire message of \<open>mpc/mpc_gen.go\<close>: what is written can be read back, what is
  accepted can be written again, and a decode does not depend on what the receiver held. The
  concrete examples run on the reference instance of theory \<open>Msgpack_Ref\<close>.
\<close>

abbreviation fresh_message :: "bytes message" where
  "fresh_message \<equiv> \<lparr>ID = 0, Func = '''', Args = [], Result = [], Error = None\<rparr>"

abbreviation sample_message :: "bytes message" where
  "sample_message \<equiv> \<lparr>ID = 300, Func = ''Arith.Add'', Args = [0x01], Result = [], Error = Some \<lparr>Msg = ''boom''\<rparr>\<rparr>"

lemma Message_UnmarshalMsg_form:
  assumes "msgp_decoding A obj S (\<lambda>s. s)" and "message_ok obj m"
  shows "Message_UnmarshalMsg S z (message_form A m @ rest) = (m, rest, None)"
  using msgp_decoding.Message_unmarshal_reads [OF assms, of z]
  by (simp add: reads_def Message_UnmarshalMsg_def)

lemma sample_message_ok: "message_ok mp_obj sample_message"
  by (simp add: message_ok_def str_ok_def raw_ok_def mp_obj_def mp_head_def mp_shape_def nil_byte_def)

text \<open>
  C9. A message that is marshaled can be unmarshaled into any receiver, from a buffer with more
  bytes behind it: the receiver ends up equal to the message and exactly its bytes are consumed.
\<close>

theorem message_roundtrip:
  assumes "msgp_decoding A obj S (\<lambda>s. s)" and "message_ok obj m"
  shows "Message_UnmarshalMsg S z (fst (Message_MarshalMsg A m []) @ rest) = (m, rest, None)"
  using assms Message_UnmarshalMsg_form
  by (simp add: msgp_encoding.Message_MarshalMsg_form [OF msgp_decoding.axioms(1)])

theorem message_roundtrip_witness:
  "message_ok mp_obj sample_message \<and>
   Message_UnmarshalMsg ref_in fresh_message (fst (Message_MarshalMsg ref_append sample_message []) @ [0xff])
     = (sample_message, [0xff], None)"
  using message_roundtrip [OF ref.msgp_decoding_axioms sample_message_ok] sample_message_ok by blast

text \<open>
  C19. Whatever bytes a peer sends: if they are accepted as a message, marshaling that message
  again succeeds and unmarshaling the result, into any receiver, gives the same message with
  nothing left over.
\<close>

theorem accepted_survives_roundtrip:
  assumes "msgp_accepting A obj S (\<lambda>s. s)"
    and "Message_UnmarshalMsg S z input = (m, rest, None)"
  shows "snd (Message_MarshalMsg A m []) = None \<and>
    Message_UnmarshalMsg S z' (fst (Message_MarshalMsg A m [])) = (m, [], None)"
proof -
  have d: "msgp_decoding A obj S (\<lambda>s. s)" using assms(1) by (rule msgp_accepting.axioms(1))
  have "Message_unmarshal S z input = (m, rest, None)"
    using assms(2) by (auto simp: Message_UnmarshalMsg_def split: prod.splits if_splits)
  then have "message_ok obj m"
    using msgp_accepting.Message_DecodeMsg_accepts [OF assms(1)] by (simp add: Message_unmarshal_eq_DecodeMsg)
  with Message_UnmarshalMsg_form [OF d, of m z' "[]"] show ?thesis
    by (simp add: msgp_encoding.Message_MarshalMsg_form [OF msgp_decoding.axioms(1) [OF d]])
qed

definition attack :: bytes where
  "attack = [0x95, 0xcd, 0x00, 0x07, 0xd9, 0x01, 0x41, 0x92, 0x01, 0xc0, 0xc0, 0x91, 0xa1, 0x78, 0xff]"

lemma attack_accepted:
  "Message_UnmarshalMsg ref_in fresh_message attack =
     (\<lparr>ID = 7, Func = ''A'', Args = [0x92, 0x01, 0xc0], Result = [], Error = Some \<lparr>Msg = ''x''\<rparr>\<rparr>, [0xff], None)"
  by code_simp

theorem accepted_survives_roundtrip_witness:
  "let m = fst (Message_UnmarshalMsg ref_in fresh_message attack) in
     Message_UnmarshalMsg ref_in sample_message (fst (Message_MarshalMsg ref_append m [])) = (m, [], None)
     \<and> Func m = ''A''"
  using accepted_survives_roundtrip [OF ref.msgp_accepting_axioms attack_accepted, of sample_message]
  by (simp add: attack_accepted Let_def)

text \<open>
  C20. A successful decode takes nothing from the receiver: decoding the same input into any other
  message, for instance one that still holds the previous message, gives the same result and
  leaves the source in the same place. This is what lets a codec decode into one message forever.
\<close>

theorem decode_ignores_receiver:
  assumes "msgp_accepting A obj S view"
    and "Message_DecodeMsg S z s = (m, s', None)"
  shows "Message_DecodeMsg S z' s = (m, s', None)"
  using assms by (rule msgp_accepting.Message_DecodeMsg_receiver)

lemma stream_sample:
  "Message_DecodeMsg ref_reader fresh_message [[0x95, 0x02], [0xa0, 0xc0], [], [0xc0, 0xc0, 0x95]] =
     (\<lparr>ID = 2, Func = '''', Args = [], Result = [], Error = None\<rparr>, [[0x95]], None)"
  by code_simp

theorem decode_ignores_receiver_witness:
  "Message_DecodeMsg ref_reader sample_message [[0x95, 0x02], [0xa0, 0xc0], [], [0xc0, 0xc0, 0x95]] =
     (\<lparr>ID = 2, Func = '''', Args = [], Result = [], Error = None\<rparr>, [[0x95]], None)"
  by (rule decode_ignores_receiver [OF ref_stream.msgp_accepting_axioms stream_sample])

text \<open>
  C32. The bytes on the wire are the tuple the README promises, whatever was in the output buffer:
  a five element array of the number, the name, the two payloads (nil when empty) and the error
  (nil or a one element array). Marshaling never fails.
\<close>

theorem wire_format_is_a_tuple:
  assumes "msgp_encoding A obj"
  shows "Message_MarshalMsg A m b =
    (b @ [0x95] @ AppendUint64 A [] (ID m) @ AppendString A [] (Func m)
       @ (if Args m = [] then [0xc0] else Args m) @ (if Result m = [] then [0xc0] else Result m)
       @ (case Error m of None \<Rightarrow> [0xc0] | Some e \<Rightarrow> [0x91] @ AppendString A [] (Msg e)), None)"
  using msgp_encoding.Message_MarshalMsg_form [OF assms, of m b]
  by (auto simp: message_form_def raw_form_def error_form_def nil_byte_def split: option.splits)

theorem wire_format_is_a_tuple_witness:
  "Message_MarshalMsg ref_append sample_message [] =
     ([0x95, 0xcd, 0x01, 0x2c, 0xa9, 0x41, 0x72, 0x69, 0x74, 0x68, 0x2e, 0x41, 0x64, 0x64,
       0x01, 0xc0, 0x91, 0xa4, 0x62, 0x6f, 0x6f, 0x6d], None)"
  unfolding wire_format_is_a_tuple [OF ref.msgp_encoding_axioms] by (simp add: ref_eval)

text \<open>
  C30. The streaming encoder agrees with the byte encoder: when \<open>EncodeMsg\<close> reports success, what
  it added to the writer is exactly what \<open>MarshalMsg\<close> produces for the same message.
\<close>

theorem encode_agrees_with_marshal:
  assumes "msgp_writing A obj W out sent"
    and "Message_EncodeMsg W m w = (w', None)"
  shows "out w' = out w @ fst (Message_MarshalMsg A m [])"
  using msgp_writing.Message_EncodeMsg_writes [OF assms(1), of m] assms(2)
  by (simp add: writes_def msgp_encoding.Message_MarshalMsg_form [OF msgp_writing.axioms(1) [OF assms(1)]])

abbreviation open_writer :: ref_writer where
  "open_writer \<equiv> \<lparr>buffered = [], delivered = [], room = 100\<rparr>"

lemma sample_encodes:
  "Message_EncodeMsg ref_out sample_message open_writer =
     (\<lparr>buffered = fst (Message_MarshalMsg ref_append sample_message []), delivered = [], room = 100\<rparr>, None)"
  by (simp add: Message_EncodeMsg_def Message_MarshalMsg_def ref_out_def ref_put_def ref_eval)

theorem encode_agrees_with_marshal_witness:
  "snd (Message_EncodeMsg ref_out sample_message open_writer) = None \<and>
   ref_written (fst (Message_EncodeMsg ref_out sample_message open_writer))
     = ref_written open_writer @ fst (Message_MarshalMsg ref_append sample_message [])"
  using encode_agrees_with_marshal [OF ref_stream.msgp_writing_axioms sample_encodes]
  by (simp add: sample_encodes)

text \<open>
  C37. \<open>Msgsize\<close> is an upper bound of the encoded size, so the buffer that \<open>MarshalMsg\<close> asks for
  up front is never outgrown.
\<close>

theorem msgsize_bounds_encoding:
  assumes "msgp_encoding A obj" and "message_ok obj m"
  shows "length (fst (Message_MarshalMsg A m b)) \<le> length b + Message_Msgsize A m"
  using msgp_encoding.length_message_form [OF assms]
  by (simp add: msgp_encoding.Message_MarshalMsg_form [OF assms(1)])

theorem msgsize_bounds_encoding_witness:
  "message_ok mp_obj sample_message \<and> Message_Msgsize ref_append sample_message = 36 \<and>
   length (fst (Message_MarshalMsg ref_append sample_message [0])) \<le> 37"
proof -
  have size: "Message_Msgsize ref_append sample_message = 36" by code_simp
  with msgsize_bounds_encoding [OF ref.msgp_encoding_axioms sample_message_ok, of "[0]"]
  show ?thesis using sample_message_ok by simp
qed

end
