(* ===== verification/Go_Memory.thy ===== *)
theory Go_Memory
  imports Prelude "HOL-Library.Multiset"
begin

text \<open>
  Go's byte slices over an explicit store of backing arrays. Every slice the repository makes
  starts at the beginning of its array (\<open>raw[:0]\<close>, \<open>make\<close> and \<open>append\<close> to those), so a slice is
  an array, a length and a capacity. Arrays are never freed: a garbage collector cannot be
  observed by a program without finalizers.

  \<open>separated\<close> is the invariant the buffers of the repository live under: no two live slices
  share an array.
\<close>

section \<open>Slices\<close>

type_synonym mem = "bytes list"

datatype slice =
    SliceNil
  | Slice nat nat nat \<comment> \<open>array, length, capacity\<close>

fun go_len :: "slice \<Rightarrow> nat" where
  "go_len SliceNil = 0"
| "go_len (Slice a n c) = n"

fun go_cap :: "slice \<Rightarrow> nat" where
  "go_cap SliceNil = 0"
| "go_cap (Slice a n c) = c"

fun arrays :: "slice \<Rightarrow> nat list" where
  "arrays SliceNil = []"
| "arrays (Slice a n c) = [a]"

fun contents :: "mem \<Rightarrow> slice \<Rightarrow> bytes" where
  "contents mm SliceNil = []"
| "contents mm (Slice a n c) = take n (mm ! a)"

fun slice_ok :: "mem \<Rightarrow> slice \<Rightarrow> bool" where
  "slice_ok mm SliceNil = True"
| "slice_ok mm (Slice a n c) = (a < length mm \<and> n \<le> c \<and> c \<le> length (mm ! a))"

text \<open>\<open>s[:0]\<close>\<close>

fun reslice0 :: "slice \<Rightarrow> slice" where
  "reslice0 SliceNil = SliceNil"
| "reslice0 (Slice a n c) = Slice a 0 c"

text \<open>\<open>make([]byte, n)\<close>\<close>

definition go_make :: "nat \<Rightarrow> mem \<Rightarrow> slice \<times> mem" where
  "go_make n mm = (Slice (length mm) n n, mm @ [replicate n 0])"

text \<open>\<open>copy(dst, src)\<close>, the source given by its bytes\<close>

fun go_copy :: "slice \<Rightarrow> bytes \<Rightarrow> mem \<Rightarrow> mem" where
  "go_copy SliceNil bs mm = mm"
| "go_copy (Slice a n c) bs mm =
     (let k = min n (length bs) in mm[a := take k bs @ drop k (mm ! a)])"

text \<open>
  \<open>append(s, bs...)\<close>: in place when the capacity suffices, else into a new array. How much
  capacity the runtime gives a new array is its own choice, \<open>grow\<close>.
\<close>

fun go_append :: "(nat \<Rightarrow> nat \<Rightarrow> nat) \<Rightarrow> mem \<Rightarrow> slice \<Rightarrow> bytes \<Rightarrow> slice \<times> mem" where
  "go_append grow mm SliceNil bs =
     (if bs = [] then (SliceNil, mm)
      else let c = max (length bs) (grow 0 (length bs))
           in (Slice (length mm) (length bs) c, mm @ [bs @ replicate (c - length bs) 0]))"
| "go_append grow mm (Slice a n c) bs =
     (let need = n + length bs in
      if need \<le> c then (Slice a need c, mm[a := take n (mm ! a) @ bs @ drop need (mm ! a)])
      else let c' = max need (grow c need)
           in (Slice (length mm) need c', mm @ [take n (mm ! a) @ bs @ replicate (c' - need) 0]))"

lemma reslice0_idem [simp]: "reslice0 (reslice0 s) = reslice0 s"
  by (cases s) auto

lemma distinct_arrays [simp]: "distinct (arrays s)"
  by (cases s) auto

lemma go_len_reslice0 [simp]: "go_len (reslice0 s) = 0"
  by (cases s) auto

lemma go_cap_reslice0 [simp]: "go_cap (reslice0 s) = go_cap s"
  by (cases s) auto

lemma arrays_reslice0 [simp]: "arrays (reslice0 s) = arrays s"
  by (cases s) auto

lemma contents_reslice0 [simp]: "contents mm (reslice0 s) = []"
  by (cases s) auto

lemma slice_ok_reslice0 [simp]: "slice_ok mm s \<Longrightarrow> slice_ok mm (reslice0 s)"
  by (cases s) auto

lemma length_contents: "slice_ok mm s \<Longrightarrow> length (contents mm s) = go_len s"
  by (cases s) auto

lemma contents_empty_iff: "slice_ok mm s \<Longrightarrow> contents mm s = [] \<longleftrightarrow> go_len s = 0"
  using length_contents [of mm s] by auto

section \<open>Frames\<close>

text \<open>
  \<open>frame own mm mm'\<close>: going from one store to the other, arrays are only added, keep their
  size, and change at most where they are owned.
\<close>

definition frame :: "nat list \<Rightarrow> mem \<Rightarrow> mem \<Rightarrow> bool" where
  "frame own mm mm' \<longleftrightarrow> length mm \<le> length mm' \<and>
     (\<forall>a < length mm. length (mm' ! a) = length (mm ! a) \<and> (a \<notin> set own \<longrightarrow> mm' ! a = mm ! a))"

lemma frame_refl [simp]: "frame own mm mm"
  by (simp add: frame_def)

lemma frame_weaken: "frame own mm mm' \<Longrightarrow> set own \<subseteq> set own' \<Longrightarrow> frame own' mm mm'"
  by (auto simp: frame_def)

lemma frame_trans:
  assumes "frame own mm mm'" and "frame own' mm' mm''"
    and "\<And>a. a \<in> set own' \<Longrightarrow> a \<in> set own \<or> length mm \<le> a"
  shows "frame own mm mm''"
proof -
  have len: "length mm \<le> length mm'" "length mm' \<le> length mm''"
    using assms(1,2) by (simp_all add: frame_def)
  have "length (mm'' ! a) = length (mm ! a) \<and> (a \<notin> set own \<longrightarrow> mm'' ! a = mm ! a)"
    if a: "a < length mm" for a
  proof -
    have "a < length mm'" using a len by simp
    moreover have "a \<notin> set own \<longrightarrow> a \<notin> set own'" using assms(3) [of a] a by auto
    ultimately show ?thesis using assms(1,2) a by (simp add: frame_def)
  qed
  with len show ?thesis by (simp add: frame_def)
qed

lemma frame_slice_ok: "frame own mm mm' \<Longrightarrow> slice_ok mm s \<Longrightarrow> slice_ok mm' s"
  by (cases s) (auto simp: frame_def)

lemma frame_contents:
  "frame own mm mm' \<Longrightarrow> slice_ok mm s \<Longrightarrow> set (arrays s) \<inter> set own = {} \<Longrightarrow> contents mm' s = contents mm s"
  by (cases s) (auto simp: frame_def)

lemma frame_extend [simp]: "frame own mm (mm @ xs)"
  by (simp add: frame_def nth_append)

lemma contents_extend: "slice_ok mm s \<Longrightarrow> contents (mm @ xs) s = contents mm s"
  by (rule frame_contents [of "[]"]) simp_all

lemma slice_ok_bound: "slice_ok mm s \<Longrightarrow> a \<in> set (arrays s) \<Longrightarrow> a < length mm"
  by (cases s) auto

section \<open>Code that fills a buffer\<close>

text \<open>
  \<open>store mm s bs\<close> is what a callee leaves behind that was given the buffer \<open>s\<close> and filled it
  with \<open>bs\<close>: the slice it returns and the store. The documented behaviour of
  \<open>MarshalMsg(b)\<close> (\<open>append to b\<close>) and of the receivers of \<open>msgp.Raw\<close> is that the result is
  in the given array or in a new one, and that nothing else is written.
\<close>

type_synonym store = "mem \<Rightarrow> slice \<Rightarrow> bytes \<Rightarrow> slice \<times> mem"

locale buffer_store =
  fixes store :: store
  assumes store_ok: "slice_ok mm s \<Longrightarrow> store mm s bs = (s', mm') \<Longrightarrow> slice_ok mm' s'"
    and store_contents: "slice_ok mm s \<Longrightarrow> store mm s bs = (s', mm') \<Longrightarrow> contents mm' s' = bs"
    and store_frame: "slice_ok mm s \<Longrightarrow> store mm s bs = (s', mm') \<Longrightarrow> frame (arrays s) mm mm'"
    and store_arrays: "slice_ok mm s \<Longrightarrow> store mm s bs = (s', mm') \<Longrightarrow> a \<in> set (arrays s') \<Longrightarrow>
           a \<in> set (arrays s) \<or> length mm \<le> a"

text \<open>Go's \<open>append\<close> to the emptied buffer is such a callee, whatever the growth policy.\<close>

definition append_store :: "(nat \<Rightarrow> nat \<Rightarrow> nat) \<Rightarrow> store" where
  "append_store grow mm s bs = go_append grow mm (reslice0 s) bs"

lemma append_store_Nil:
  "append_store grow mm SliceNil bs =
     (if bs = [] then (SliceNil, mm)
      else let c = max (length bs) (grow 0 (length bs))
           in (Slice (length mm) (length bs) c, mm @ [bs @ replicate (c - length bs) 0]))"
  by (simp add: append_store_def)

lemma append_store_Slice:
  "append_store grow mm (Slice a n c) bs =
     (if length bs \<le> c then (Slice a (length bs) c, mm[a := bs @ drop (length bs) (mm ! a)])
      else let c' = max (length bs) (grow c (length bs))
           in (Slice (length mm) (length bs) c', mm @ [bs @ replicate (c' - length bs) 0]))"
  by (simp add: append_store_def Let_def)

interpretation go_store: buffer_store "append_store grow" for grow
proof (unfold_locales, goal_cases)
  case (1 mm s bs s' mm')
  then show ?case
    by (cases s) (auto simp: append_store_Nil append_store_Slice Let_def nth_append split: if_splits)
next
  case (2 mm s bs s' mm')
  then show ?case
    by (cases s) (auto simp: append_store_Nil append_store_Slice Let_def nth_append split: if_splits)
next
  case (3 mm s bs s' mm')
  then show ?case
    by (cases s) (auto simp: append_store_Nil append_store_Slice Let_def frame_def nth_append
        nth_list_update split: if_splits)
next
  case (4 mm s bs s' mm' a)
  then show ?case
    by (cases s) (auto simp: append_store_Nil append_store_Slice Let_def split: if_splits)
qed

section \<open>Separation\<close>

definition separated :: "mem \<Rightarrow> slice list \<Rightarrow> bool" where
  "separated mm ss \<longleftrightarrow> list_all (slice_ok mm) ss \<and> distinct (concat (map arrays ss))"

lemma separated_mset:
  assumes "mset ss = mset ss'"
  shows "separated mm ss \<longleftrightarrow> separated mm ss'"
proof -
  have "mset (concat (map arrays ss)) = mset (concat (map arrays ss'))"
    using assms by (metis mset_concat mset_map sum_mset_sum_list)
  then have "distinct (concat (map arrays ss)) = distinct (concat (map arrays ss'))"
    by (metis mset_eq_imp_distinct_iff)
  moreover have "list_all (slice_ok mm) ss = list_all (slice_ok mm) ss'"
    using assms by (metis list_all_iff set_mset_mset)
  ultimately show ?thesis by (simp add: separated_def)
qed

lemma separated_msetD: "separated mm ss \<Longrightarrow> mset ss = mset ss' \<Longrightarrow> separated mm ss'"
  using separated_mset by blast

lemma separated_Cons:
  "separated mm (s # ss) \<longleftrightarrow>
     slice_ok mm s \<and> (\<forall>t \<in> set ss. set (arrays s) \<inter> set (arrays t) = {}) \<and> separated mm ss"
  by (cases s) (auto simp: separated_def)

lemma separated_append: "separated mm (ss @ ts) \<Longrightarrow> separated mm ss \<and> separated mm ts"
  by (auto simp: separated_def)

lemma separated_drop1 [simp]: "separated mm (s # ss) \<Longrightarrow> separated mm ss"
  by (simp add: separated_Cons)

lemma separated_reslice0: "separated mm (s # ss) \<Longrightarrow> separated mm (reslice0 s # ss)"
  by (simp add: separated_Cons)

lemma separated_nil: "separated mm ss \<Longrightarrow> separated mm (SliceNil # ss)"
  by (simp add: separated_Cons)

text \<open>Refilling one buffer keeps all apart and changes none of the others.\<close>

lemma separated_replace:
  assumes "separated mm (s # ss)" and "frame (arrays s) mm mm'" and "slice_ok mm' s'"
    and "\<And>a. a \<in> set (arrays s') \<Longrightarrow> a \<in> set (arrays s) \<or> length mm \<le> a"
  shows "separated mm' (s' # ss)" and "\<forall>t \<in> set ss. contents mm' t = contents mm t"
proof -
  have ok: "slice_ok mm t" "set (arrays s) \<inter> set (arrays t) = {}" if "t \<in> set ss" for t
    using assms(1) that by (auto simp: separated_Cons) (auto simp: separated_def list_all_iff)
  show "\<forall>t \<in> set ss. contents mm' t = contents mm t"
    using ok frame_contents [OF assms(2)] by blast
  have "list_all (slice_ok mm') ss"
    using ok frame_slice_ok [OF assms(2)] by (simp add: list_all_iff)
  moreover have "set (arrays s') \<inter> set (arrays t) = {}" if "t \<in> set ss" for t
    using assms(4) ok [OF that] slice_ok_bound by (metis disjoint_iff linorder_not_less)
  ultimately show "separated mm' (s' # ss)"
    using assms(1,3) by (auto simp: separated_Cons separated_def)
qed


end
