(* ===== verification/Mpc.thy ===== *)
theory Mpc
  imports Mpc_Gen Go_Memory
begin

text \<open>
  \<open>mpc/mpc.go\<close>: the conversion between birpc's messages and wire messages, the pool of wire
  messages, and the limits on the buffers they keep. Wire messages hold slices of the store of
  theory \<open>Go_Memory\<close> here, because what this file is about is which of them may share a buffer.

  Lemmas: each operation refines a definition on byte lists (\<open>wire_of\<close>, \<open>payload_form\<close>,
  \<open>given\<close>) and keeps all live buffers apart.
\<close>

section \<open>Values from outside\<close>

text \<open>
  An \<open>interface{}\<close> value: nil, a \<open>msgp.Raw\<close>, or a value of any other type. What such a type
  implements is a parameter: \<open>marshaler v\<close> is None if it has no \<open>MarshalMsg\<close>, else the bytes
  \<open>MarshalMsg\<close> appends and its error.
\<close>

datatype 'v iface = INil | IRaw slice | IVal 'v

record ('v, 'e) go_types =
  marshaler :: "'v \<Rightarrow> (bytes \<times> 'e goerr option) option"
  unmarshaler :: "'v \<Rightarrow> (bytes \<Rightarrow> 'v \<times> bytes \<times> 'e goerr option) option"
  type_name :: "'v \<Rightarrow> string"

record birpc_error =
  err_Msg :: string

record 'v birpc_message =
  msg_ID :: u64
  msg_Func :: string
  msg_Args :: "'v iface"
  msg_Result :: "'v iface"
  msg_Error :: "birpc_error option"

section \<open>The pool\<close>

definition maxKeptBuffer :: nat where
  "maxKeptBuffer = 64 * 2 ^ 10"

definition keep :: "slice \<Rightarrow> slice" where
  "keep raw = (if go_cap raw > maxKeptBuffer then SliceNil else reslice0 raw)"

definition new_Message :: "slice message" where
  "new_Message = \<lparr>ID = 0, Func = '''', Args = SliceNil, Result = SliceNil, Error = None\<rparr>"

text \<open>
  \<open>sync.Pool\<close> gives out any of its items, or a new one: \<open>pick\<close> is its choice. \<open>messages\<close> are
  the items it holds.
\<close>

definition GetMessage :: "nat option \<Rightarrow> slice message list \<Rightarrow> slice message \<times> slice message list" where
  "GetMessage pick messages =
     (case pick of
        Some i \<Rightarrow> if i < length messages then (messages ! i, take i messages @ drop (Suc i) messages)
                  else (new_Message, messages)
      | None \<Rightarrow> (new_Message, messages))"

definition PutMessage :: "slice message \<Rightarrow> slice message list \<Rightarrow> slice message list" where
  "PutMessage m messages =
     (let m = m\<lparr>Args := keep (Args m)\<rparr>;
          m = m\<lparr>Result := keep (Result m)\<rparr>;
          m = m\<lparr>Error := None\<rparr>
      in m # messages)"

section \<open>To the wire\<close>

text \<open>The assertion \<open>v.(msgp.Marshaler)\<close>, with the call of its \<open>MarshalMsg\<close>: \<open>msgp.Raw\<close> has one.\<close>

fun as_Marshaler :: "('v, 'e) go_types \<Rightarrow> 'e msgp_append \<Rightarrow> mem \<Rightarrow> 'v iface \<Rightarrow> (bytes \<times> 'e goerr option) option" where
  "as_Marshaler T A mm INil = None"
| "as_Marshaler T A mm (IRaw s) = Some (Raw_MarshalMsg A (contents mm s) [])"
| "as_Marshaler T A mm (IVal v) = marshaler T v"

fun iface_type :: "('v, 'e) go_types \<Rightarrow> 'v iface \<Rightarrow> string" where
  "iface_type T INil = ''<nil>''"
| "iface_type T (IRaw s) = ''msgp.Raw''"
| "iface_type T (IVal v) = type_name T v"

definition not_marshaler :: string where
  "not_marshaler = '' does not implement the msgp.Marshaler interface''"

definition marshal ::
    "('v, 'e) go_types \<Rightarrow> 'e msgp_append \<Rightarrow> store \<Rightarrow> mem \<Rightarrow> slice \<Rightarrow> 'v iface \<Rightarrow> slice \<times> mem \<times> 'e goerr option" where
  "marshal T A store mm buf v =
     (let buf = reslice0 buf in
      if v = INil then (buf, mm, None) else
      case as_Marshaler T A mm v of
        None \<Rightarrow> (buf, mm, Some (ErrorfT (iface_type T v) not_marshaler))
      | Some (form, err) \<Rightarrow>
          let (b, mm) = store mm buf form in
          if err \<noteq> None then (buf, mm, err) else (b, mm, None))"

definition ToWire ::
    "('v, 'e) go_types \<Rightarrow> 'e msgp_append \<Rightarrow> store \<Rightarrow> mem \<Rightarrow> slice message \<Rightarrow> 'v birpc_message
       \<Rightarrow> slice message \<times> mem \<times> 'e goerr option" where
  "ToWire T A store mm m msg =
     (let m = m\<lparr>ID := msg_ID msg\<rparr>;
          m = m\<lparr>Func := msg_Func msg\<rparr>;
          m = m\<lparr>Error := None\<rparr>;
          (b, mm, err) = marshal T A store mm (Args m) (msg_Args msg);
          m = m\<lparr>Args := b\<rparr> in
      if err \<noteq> None then (m, mm, Some (ErrorfV ''marshaling args: '' (the err))) else
      let (b, mm, err) = marshal T A store mm (Result m) (msg_Result msg);
          m = m\<lparr>Result := b\<rparr> in
      if err \<noteq> None then (m, mm, Some (ErrorfV ''marshaling result: '' (the err))) else
      let m = (case msg_Error msg of
                 None \<Rightarrow> m
               | Some e \<Rightarrow> m\<lparr>Error := Some \<lparr>Msg = err_Msg e\<rparr>\<rparr>)
      in (m, mm, None))"

section \<open>From the wire\<close>

definition handOver :: "mem \<Rightarrow> slice \<Rightarrow> 'v iface \<times> mem" where
  "handOver mm raw =
     (if go_len raw = 0 then (INil, mm)
      else let (out, mm) = go_make (go_len raw) mm;
               mm = go_copy out (contents mm raw) mm
           in (IRaw out, mm))"

definition FromWire ::
    "mem \<Rightarrow> 'v birpc_message \<Rightarrow> slice message \<Rightarrow> 'v birpc_message \<times> slice message \<times> mem" where
  "FromWire mm msg m =
     (let msg = msg\<lparr>msg_ID := ID m\<rparr>;
          msg = msg\<lparr>msg_Func := Func m\<rparr>;
          (v, mm) = handOver mm (Args m);
          msg = msg\<lparr>msg_Args := v\<rparr>;
          (v, mm) = handOver mm (Result m);
          msg = msg\<lparr>msg_Result := v\<rparr>;
          m = m\<lparr>Args := keep (Args m)\<rparr>;
          m = m\<lparr>Result := keep (Result m)\<rparr>;
          msg = msg\<lparr>msg_Error := None\<rparr>;
          msg = (case Error m of
                   None \<Rightarrow> msg
                 | Some e \<Rightarrow> msg\<lparr>msg_Error := Some \<lparr>err_Msg = Msg e\<rparr>\<rparr>)
      in (msg, m, mm))"

definition Unmarshal ::
    "('v, 'e) go_types \<Rightarrow> mem \<Rightarrow> 'v iface \<Rightarrow> 'v \<Rightarrow> 'v \<times> 'e goerr option" where
  "Unmarshal T mm i ret =
     (case unmarshaler T ret of
        None \<Rightarrow> (ret, Some (ErrorfT (type_name T ret) '' does not implement the msgp.Unmarshaler interface''))
      | Some unmarshalMsg \<Rightarrow>
          (case i of
             INil \<Rightarrow> (ret, None)
           | IVal v \<Rightarrow> (ret, Some (ErrorfT (type_name T v) '' is not a raw MessagePack payload''))
           | IRaw raw \<Rightarrow>
               if go_len raw = 0 then (ret, None)
               else let (ret, left, err) = unmarshalMsg (contents mm raw) in (ret, err)))"

declare FromWire_def [mem_simps] handOver_def [mem_simps] go_make_def [mem_simps] keep_def [mem_simps]
  maxKeptBuffer_def [mem_simps] Let_def [mem_simps]

section \<open>Specifications on byte lists\<close>

definition deref :: "mem \<Rightarrow> slice message \<Rightarrow> bytes message" where
  "deref mm m = \<lparr>ID = ID m, Func = Func m, Args = contents mm (Args m),
     Result = contents mm (Result m), Error = Error m\<rparr>"

definition slices :: "slice message \<Rightarrow> slice list" where
  "slices m = [Args m, Result m]"

text \<open>The bytes a payload is sent as, or the error of trying.\<close>

definition payload_form :: "('v, 'e) go_types \<Rightarrow> 'e msgp_append \<Rightarrow> mem \<Rightarrow> 'v iface \<Rightarrow> 'e goerr + bytes" where
  "payload_form T A mm v =
     (if v = INil then Inr [] else
      case as_Marshaler T A mm v of
        None \<Rightarrow> Inl (ErrorfT (iface_type T v) not_marshaler)
      | Some (form, None) \<Rightarrow> Inr form
      | Some (form, Some e) \<Rightarrow> Inl e)"

definition wire_of :: "('v, 'e) go_types \<Rightarrow> 'e msgp_append \<Rightarrow> mem \<Rightarrow> 'v birpc_message \<Rightarrow> 'e goerr + bytes message" where
  "wire_of T A mm msg =
     (case payload_form T A mm (msg_Args msg) of
        Inl e \<Rightarrow> Inl (ErrorfV ''marshaling args: '' e)
      | Inr a \<Rightarrow>
          (case payload_form T A mm (msg_Result msg) of
             Inl e \<Rightarrow> Inl (ErrorfV ''marshaling result: '' e)
           | Inr r \<Rightarrow> Inr \<lparr>ID = msg_ID msg, Func = msg_Func msg, Args = a, Result = r,
               Error = map_option (\<lambda>e. \<lparr>Msg = err_Msg e\<rparr>) (msg_Error msg)\<rparr>))"

text \<open>
  \<open>apart mm own v\<close>: a payload that is itself a raw slice is a valid one and lives outside the
  arrays \<open>own\<close>.
\<close>

fun apart :: "mem \<Rightarrow> nat list \<Rightarrow> 'v iface \<Rightarrow> bool" where
  "apart mm own (IRaw s) = (slice_ok mm s \<and> set (arrays s) \<inter> set own = {})"
| "apart mm own v = True"

definition message_arrays :: "slice message \<Rightarrow> nat list" where
  "message_arrays m = arrays (Args m) @ arrays (Result m)"

lemma slices_arrays: "concat (map arrays (slices m)) = message_arrays m"
  by (simp add: slices_def message_arrays_def)

section \<open>Keeping buffers\<close>

lemma contents_keep [simp]: "contents mm (keep s) = []"
  by (simp add: keep_def)

lemma go_len_keep [simp]: "go_len (keep s) = 0"
  by (simp add: keep_def)

lemma go_cap_keep: "go_cap (keep s) \<le> maxKeptBuffer"
  by (simp add: keep_def)

lemma arrays_keep: "set (arrays (keep s)) \<subseteq> set (arrays s)"
  by (simp add: keep_def)

lemma slice_ok_keep: "slice_ok mm s \<Longrightarrow> slice_ok mm (keep s)"
  by (simp add: keep_def)

lemma separated_shrink:
  assumes "separated mm (s # ss)" and "set (arrays s') \<subseteq> set (arrays s)" and "slice_ok mm s'"
  shows "separated mm (s' # ss)"
  using assms by (auto simp: separated_Cons)

lemma separated_keep: "separated mm (s # ss) \<Longrightarrow> separated mm (keep s # ss)"
  by (rule separated_shrink [OF _ arrays_keep slice_ok_keep]) (simp_all add: separated_Cons)

lemma separated_swap: "separated mm (s # t # ss) \<Longrightarrow> separated mm (t # s # ss)"
  using separated_mset [of "s # t # ss" "t # s # ss"] by simp

lemma separated_keep_message:
  "separated mm (Args m # Result m # ss) \<Longrightarrow> separated mm (keep (Args m) # keep (Result m) # ss)"
  by (intro separated_keep separated_swap [of mm "keep (Result m)"]) (blast intro: separated_keep separated_swap)

section \<open>Marshaling refines the specification\<close>

context buffer_store
begin

lemma store_separated:
  assumes "separated mm (s # ss)" and "store mm s bs = (s', mm')"
  shows "separated mm' (s' # ss) \<and> (\<forall>t \<in> set ss. contents mm' t = contents mm t) \<and>
    contents mm' s' = bs \<and> frame (arrays s) mm mm' \<and> (\<forall>a \<in> set (arrays s'). a \<in> set (arrays s) \<or> length mm \<le> a)"
proof -
  have ok: "slice_ok mm s" using assms(1) by (simp add: separated_Cons)
  note facts = store_ok [OF ok assms(2)] store_contents [OF ok assms(2)] store_frame [OF ok assms(2)]
    store_arrays [OF ok assms(2)]
  from separated_replace [OF assms(1) facts(3,1,4)] facts show ?thesis by blast
qed

lemma store_separated_old:
  assumes "separated mm (s # ss)" and "store mm s bs = (s', mm')"
  shows "separated mm' (reslice0 s # ss)"
proof -
  have ok: "slice_ok mm s" using assms(1) by (simp add: separated_Cons)
  have "slice_ok mm' (reslice0 s)"
    using frame_slice_ok [OF store_frame [OF ok assms(2)] ok] by simp
  from separated_replace(1) [OF assms(1) store_frame [OF ok assms(2)] this] show ?thesis by simp
qed

lemma marshal_refines:
  assumes sep: "separated mm (buf # ss)" and run: "marshal T A store mm buf v = (b, mm', err)"
  shows "separated mm' (b # ss)" and "\<forall>t \<in> set ss. contents mm' t = contents mm t"
    and "case payload_form T A mm v of Inl e \<Rightarrow> err = Some e | Inr f \<Rightarrow> err = None \<and> contents mm' b = f"
    and "frame (arrays buf) mm mm'" and "\<forall>a \<in> set (arrays b). a \<in> set (arrays buf) \<or> length mm \<le> a"
proof -
  have sep0: "separated mm (reslice0 buf # ss)" using sep by (rule separated_reslice0)
  have "separated mm' (b # ss) \<and> (\<forall>t \<in> set ss. contents mm' t = contents mm t) \<and>
    (case payload_form T A mm v of Inl e \<Rightarrow> err = Some e | Inr f \<Rightarrow> err = None \<and> contents mm' b = f) \<and>
    frame (arrays buf) mm mm' \<and> (\<forall>a \<in> set (arrays b). a \<in> set (arrays buf) \<or> length mm \<le> a)"
  proof (cases "v = INil \<or> as_Marshaler T A mm v = None")
    case True
    with run sep0 show ?thesis by (auto simp: marshal_def payload_form_def Let_def split: if_splits)
  next
    case False
    then obtain form e where fe: "v \<noteq> INil" "as_Marshaler T A mm v = Some (form, e)" by auto
    obtain s' mm1 where st: "store mm (reslice0 buf) form = (s', mm1)" by fastforce
    note s = store_separated [OF sep0 st] store_separated_old [OF sep0 st]
    from run fe st have "mm' = mm1" "err = e" "b = (if e = None then s' else reslice0 buf)"
      by (auto simp: marshal_def split: if_splits)
    with s fe show ?thesis
      by (cases "e") (auto simp: payload_form_def)
  qed
  then show "separated mm' (b # ss)" and "\<forall>t \<in> set ss. contents mm' t = contents mm t"
    and "case payload_form T A mm v of Inl e \<Rightarrow> err = Some e | Inr f \<Rightarrow> err = None \<and> contents mm' b = f"
    and "frame (arrays buf) mm mm'" and "\<forall>a \<in> set (arrays b). a \<in> set (arrays buf) \<or> length mm \<le> a"
    by blast+
qed

end

lemma payload_form_frame:
  assumes "frame own mm mm'" and "apart mm own v"
  shows "payload_form T A mm' v = payload_form T A mm v"
proof (cases v)
  case (IRaw s)
  with assms have "contents mm' s = contents mm s" by (intro frame_contents) auto
  with IRaw show ?thesis by (simp add: payload_form_def)
qed (simp_all add: payload_form_def)

lemma apart_mono: "apart mm own v \<Longrightarrow> set own' \<subseteq> set own \<Longrightarrow> apart mm own' v"
  by (cases v) auto

context buffer_store
begin

text \<open>Both payloads, one after the other: the second marshaling leaves the first payload alone.\<close>

lemma marshal_both:
  assumes sep: "separated mm (s # r # ss)" and apart: "apart mm (arrays s @ arrays r) v"
    and m1: "marshal T A store mm s u = (b1, mm1, e1)" and m2: "marshal T A store mm1 r v = (b2, mm2, e2)"
  shows "separated mm2 (b1 # b2 # ss)" and "\<forall>t \<in> set ss. contents mm2 t = contents mm t"
    and "contents mm2 b1 = contents mm1 b1" and "frame (arrays s @ arrays r) mm mm2"
    and "\<forall>a \<in> set (arrays b1 @ arrays b2). a \<in> set (arrays s @ arrays r) \<or> length mm \<le> a"
    and "case payload_form T A mm v of Inl e \<Rightarrow> e2 = Some e | Inr f \<Rightarrow> e2 = None \<and> contents mm2 b2 = f"
proof -
  note p1 = marshal_refines [OF sep m1]
  have sep1: "separated mm1 (r # b1 # ss)" using p1(1) by (rule separated_swap)
  note p2 = marshal_refines [OF sep1 m2]
  have fr1: "frame (arrays s @ arrays r) mm mm1" using p1(4) by (rule frame_weaken) simp
  have len: "length mm \<le> length mm1" using p1(4) by (simp add: frame_def)
  show "separated mm2 (b1 # b2 # ss)" using p2(1) by (rule separated_swap)
  show "\<forall>t \<in> set ss. contents mm2 t = contents mm t" "contents mm2 b1 = contents mm1 b1" using p1(2) p2(2) by simp_all
  show "frame (arrays s @ arrays r) mm mm2" using fr1 p2(4) by (rule frame_trans) simp
  show "\<forall>a \<in> set (arrays b1 @ arrays b2). a \<in> set (arrays s @ arrays r) \<or> length mm \<le> a"
    using p1(5) p2(5) len by auto
  show "case payload_form T A mm v of Inl e \<Rightarrow> e2 = Some e | Inr f \<Rightarrow> e2 = None \<and> contents mm2 b2 = f"
    using p2(3) payload_form_frame [OF fr1 apart, of T A] by simp
qed

end

text \<open>The three ways \<open>ToWire\<close> ends.\<close>

lemma ToWire_cases:
  assumes "ToWire T A store mm m msg = (m', mm', err)"
  obtains (args) b1 e where "marshal T A store mm (Args m) (msg_Args msg) = (b1, mm', Some e)"
      and "m' = m\<lparr>ID := msg_ID msg, Func := msg_Func msg, Error := None, Args := b1\<rparr>"
      and "err = Some (ErrorfV ''marshaling args: '' e)"
  | (result) b1 mm1 b2 e where "marshal T A store mm (Args m) (msg_Args msg) = (b1, mm1, None)"
      and "marshal T A store mm1 (Result m) (msg_Result msg) = (b2, mm', Some e)"
      and "m' = m\<lparr>ID := msg_ID msg, Func := msg_Func msg, Error := None, Args := b1, Result := b2\<rparr>"
      and "err = Some (ErrorfV ''marshaling result: '' e)"
  | (success) b1 mm1 b2 where "marshal T A store mm (Args m) (msg_Args msg) = (b1, mm1, None)"
      and "marshal T A store mm1 (Result m) (msg_Result msg) = (b2, mm', None)"
      and "m' = m\<lparr>ID := msg_ID msg, Func := msg_Func msg, Args := b1, Result := b2,
          Error := map_option (\<lambda>e. \<lparr>Msg = err_Msg e\<rparr>) (msg_Error msg)\<rparr>" and "err = None"
proof -
  obtain b1 mm1 e1 where m1: "marshal T A store mm (Args m) (msg_Args msg) = (b1, mm1, e1)" by (metis prod_cases3)
  obtain b2 mm2 e2 where m2: "marshal T A store mm1 (Result m) (msg_Result msg) = (b2, mm2, e2)" by (metis prod_cases3)
  show thesis
  proof (cases e1)
    case (Some e)
    with assms m1 show thesis by (intro args [of b1 e]) (auto simp: ToWire_def)
  next
    case None
    with assms m1 m2 show thesis
      by (cases e2; cases "msg_Error msg") (auto simp: ToWire_def Let_def intro: result success)
  qed
qed

context buffer_store
begin

text \<open>
  The whole of \<open>ToWire\<close>: on success the wire message holds the specified bytes, on failure the
  error says which payload failed and why; either way no buffer is shared and no buffer outside
  the message is written.
\<close>

lemma ToWire_refines:
  assumes sep: "separated mm (slices m @ ss)"
    and apart: "apart mm (message_arrays m) (msg_Args msg)" "apart mm (message_arrays m) (msg_Result msg)"
    and run: "ToWire T A store mm m msg = (m', mm', err)"
  shows "separated mm' (slices m' @ ss) \<and> (\<forall>t \<in> set ss. contents mm' t = contents mm t) \<and>
    (case wire_of T A mm msg of Inl e \<Rightarrow> err = Some e | Inr am \<Rightarrow> err = None \<and> deref mm' m' = am) \<and>
    frame (message_arrays m) mm mm' \<and> (\<forall>a \<in> set (message_arrays m'). a \<in> set (message_arrays m) \<or> length mm \<le> a)"
proof -
  have s: "separated mm (Args m # Result m # ss)" using sep by (simp add: slices_def)
  note arrs = message_arrays_def slices_def
  show ?thesis
    using run
  proof (cases rule: ToWire_cases)
    case (args b1 e)
    note p = marshal_refines [OF s args(1)]
    have "frame (message_arrays m) mm mm'" using p(4) by (rule frame_weaken) (simp add: message_arrays_def)
    moreover have "wire_of T A mm msg = Inl (ErrorfV ''marshaling args: '' e)"
      using p(3) by (auto simp: wire_of_def split: sum.splits)
    ultimately show ?thesis using p args(2,3) by (auto simp: arrs)
  next
    case (result b1 mm1 b2 e)
    note p = marshal_both [OF s apart(2) [unfolded message_arrays_def] result(1,2)] marshal_refines(3) [OF s result(1)]
    have "wire_of T A mm msg = Inl (ErrorfV ''marshaling result: '' e)"
      using p(6,7) by (auto simp: wire_of_def split: sum.splits)
    then show ?thesis using p(1-5) result(3,4) by (auto simp: arrs)
  next
    case (success b1 mm1 b2)
    note p = marshal_both [OF s apart(2) [unfolded message_arrays_def] success(1,2)] marshal_refines(3) [OF s success(1)]
    have "payload_form T A mm (msg_Args msg) = Inr (contents mm' b1)"
      "payload_form T A mm (msg_Result msg) = Inr (contents mm' b2)"
      using p(3,6,7) by (auto split: sum.splits)
    then show ?thesis using p(1-5) success(3,4) by (auto simp: arrs wire_of_def deref_def)
  qed
qed

end

section \<open>Handing over refines the specification\<close>

text \<open>What birpc gets for a payload: nil for an empty one, else a raw payload with these bytes.\<close>

fun given :: "mem \<Rightarrow> 'v iface \<Rightarrow> bytes option" where
  "given mm INil = Some []"
| "given mm (IRaw s) = (if contents mm s = [] then None else Some (contents mm s))"
| "given mm (IVal v) = None"

fun iface_slices :: "'v iface \<Rightarrow> slice list" where
  "iface_slices (IRaw s) = [s]"
| "iface_slices v = []"

lemma handOver_refines:
  assumes sep: "separated mm ss" and raw: "raw \<in> set ss" and run: "handOver mm raw = (v, mm')"
  shows "separated mm' (iface_slices v @ ss)" and "\<forall>t \<in> set ss. contents mm' t = contents mm t"
    and "given mm' v = Some (contents mm raw)" and "frame [] mm mm'"
    and "\<forall>s \<in> set (iface_slices v). \<forall>a \<in> set (arrays s). length mm \<le> a"
proof -
  have ok: "slice_ok mm raw" using sep raw by (auto simp: separated_def list_all_iff)
  let ?n = "go_len raw" and ?out = "Slice (length mm) (go_len raw) (go_len raw)"
  have "separated mm' (iface_slices v @ ss) \<and> (\<forall>t \<in> set ss. contents mm' t = contents mm t) \<and>
    given mm' v = Some (contents mm raw) \<and> frame [] mm mm' \<and>
    (\<forall>s \<in> set (iface_slices v). \<forall>a \<in> set (arrays s). length mm \<le> a)"
  proof (cases "?n = 0")
    case True
    with run sep contents_empty_iff [OF ok] show ?thesis by (auto simp: handOver_def)
  next
    case False
    with run length_contents [OF ok] contents_extend [OF ok] have r: "v = IRaw ?out" "mm' = mm @ [contents mm raw]"
      by (auto simp: handOver_def go_make_def Let_def)
    have fr: "frame [] mm mm'" by (simp add: r(2))
    have okout: "slice_ok mm' ?out" using length_contents [OF ok] by (simp add: r(2))
    from separated_replace [OF separated_nil [OF sep], of mm' ?out] fr okout
    have "separated mm' (?out # ss) \<and> (\<forall>t \<in> set ss. contents mm' t = contents mm t)" by simp
    with r fr False length_contents [OF ok] show ?thesis by auto
  qed
  then show "separated mm' (iface_slices v @ ss)" and "\<forall>t \<in> set ss. contents mm' t = contents mm t"
    and "given mm' v = Some (contents mm raw)" and "frame [] mm mm'"
    and "\<forall>s \<in> set (iface_slices v). \<forall>a \<in> set (arrays s). length mm \<le> a"
    by blast+
qed

lemma given_frame: "\<forall>t \<in> set (iface_slices v). contents mm' t = contents mm t \<Longrightarrow> given mm' v = given mm v"
  by (cases v) auto

text \<open>
  The whole of \<open>FromWire\<close>: birpc's message gets everything the wire message carried, with the
  payloads in arrays of their own; the wire message keeps only empty buffers, and no array that
  existed before is written.
\<close>

lemma FromWire_refines:
  assumes sep: "separated mm (slices m @ ss)" and run: "FromWire mm msg m = (msg', m', mm')"
  shows "separated mm' (slices m' @ iface_slices (msg_Args msg') @ iface_slices (msg_Result msg') @ ss)"
    and "\<forall>t \<in> set ss. contents mm' t = contents mm t"
    and "msg_ID msg' = ID m" and "msg_Func msg' = Func m"
    and "given mm' (msg_Args msg') = Some (contents mm (Args m))"
    and "given mm' (msg_Result msg') = Some (contents mm (Result m))"
    and "msg_Error msg' = map_option (\<lambda>e. \<lparr>err_Msg = Msg e\<rparr>) (Error m)"
    and "deref mm' m' = (deref mm m)\<lparr>Args := [], Result := []\<rparr>"
    and "frame [] mm mm'"
    and "m' = m\<lparr>Args := keep (Args m), Result := keep (Result m)\<rparr>"
proof -
  obtain v1 mm1 where h1: "handOver mm (Args m) = (v1 :: 'a iface, mm1)" by fastforce
  obtain v2 mm2 where h2: "handOver mm1 (Result m) = (v2 :: 'a iface, mm2)" by fastforce
  note p1 = handOver_refines [OF sep _ h1, simplified slices_def, simplified]
  have sep1: "separated mm1 (iface_slices v1 @ Args m # Result m # ss)" using p1(1) by simp
  note p2 = handOver_refines [OF sep1 _ h2, simplified]
  have msg': "msg' = msg\<lparr>msg_ID := ID m, msg_Func := Func m, msg_Args := v1, msg_Result := v2,
      msg_Error := map_option (\<lambda>e. \<lparr>err_Msg = Msg e\<rparr>) (Error m)\<rparr>"
    and m': "m' = m\<lparr>Args := keep (Args m), Result := keep (Result m)\<rparr>" and mm': "mm' = mm2"
    using run h1 h2 by (auto simp: FromWire_def Let_def split: option.splits)
  have "separated mm2 (Args m # Result m # (iface_slices v1 @ iface_slices v2 @ ss))"
    using p2(1) separated_mset [of "iface_slices v2 @ iface_slices v1 @ Args m # Result m # ss"
        "Args m # Result m # (iface_slices v1 @ iface_slices v2 @ ss)"] by simp
  then show "separated mm' (slices m' @ iface_slices (msg_Args msg') @ iface_slices (msg_Result msg') @ ss)"
    by (auto simp: m' mm' msg' slices_def intro: separated_keep_message)
  show "frame [] mm mm'" using p1(4) p2(4) by (auto simp: mm' elim: frame_trans)
  show "\<forall>t \<in> set ss. contents mm' t = contents mm t" using p1(2) p2(2) by (simp add: mm')
  show "given mm' (msg_Args msg') = Some (contents mm (Args m))"
    using p1(3) p2(2) given_frame [of v1 mm2 mm1] by (simp add: mm' msg' ball_Un)
  show "given mm' (msg_Result msg') = Some (contents mm (Result m))"
    using p1(2) p2(3) by (simp add: mm' msg')
qed (insert run, auto simp: FromWire_def deref_def Let_def split: prod.splits option.splits)

end
