(* ===== verification/Mem_Decode.thy ===== *)
theory Mem_Decode
  imports Mpc
begin

text \<open>
  Decoding into the buffers of a wire message. A codec's wire message holds slices, so its
  decoder works on a source paired with the store: \<open>mem_in\<close> lifts a source of theory \<open>Msgp\<close> to
  that pair, with the receivers of \<open>msgp.Raw\<close> filling their slices. The lemmas show that the
  generated decoder on slices computes what it computes on byte lists, on every outcome, and
  writes no buffer but the two it was given.
\<close>

section \<open>Sources over the store\<close>

fun over :: "('s \<Rightarrow> 'a \<times> 's \<times> 'e goerr option) \<Rightarrow> mem \<times> 's \<Rightarrow> 'a \<times> (mem \<times> 's) \<times> 'e goerr option" where
  "over f (mm, s) = (case f s of (v, s, err) \<Rightarrow> (v, (mm, s), err))"

fun over_read_nil :: "('s \<Rightarrow> 's \<times> 'e goerr option) \<Rightarrow> mem \<times> 's \<Rightarrow> (mem \<times> 's) \<times> 'e goerr option" where
  "over_read_nil f (mm, s) = (case f s of (s, err) \<Rightarrow> ((mm, s), err))"

fun over_is_nil :: "('s \<Rightarrow> bool \<times> 's) \<Rightarrow> mem \<times> 's \<Rightarrow> bool \<times> (mem \<times> 's)" where
  "over_is_nil f (mm, s) = (case f s of (b, s) \<Rightarrow> (b, (mm, s)))"

fun raw_over :: "store \<Rightarrow> (bytes \<Rightarrow> 's \<Rightarrow> bytes \<times> 's \<times> 'e goerr option) \<Rightarrow>
    slice \<Rightarrow> mem \<times> 's \<Rightarrow> slice \<times> (mem \<times> 's) \<times> 'e goerr option" where
  "raw_over store f raw (mm, s) =
     (case f (contents mm raw) s of
        (w, s, err) \<Rightarrow> (case store mm raw w of (raw, mm) \<Rightarrow> (raw, (mm, s), err)))"

definition mem_in :: "store \<Rightarrow> ('s, bytes, 'e) msgp_in \<Rightarrow> (mem \<times> 's, slice, 'e) msgp_in" where
  "mem_in store S = \<lparr>
     ReadArrayHeader = over (ReadArrayHeader S),
     ReadMapHeader = over (ReadMapHeader S),
     ReadMapKey = over (ReadMapKey S),
     ReadUint64 = over (ReadUint64 S),
     ReadInt64 = over (ReadInt64 S),
     ReadUint32 = over (ReadUint32 S),
     ReadString = over (ReadString S),
     IsNil = over_is_nil (IsNil S),
     ReadNil = over_read_nil (ReadNil S),
     Skip = over_read_nil (Skip S),
     Raw_Read = raw_over store (Raw_Read S)\<rparr>"

section \<open>One body for both decoders\<close>

definition decode_error_element ::
    "('e goerr option \<Rightarrow> 'e goerr option) \<Rightarrow> ('s, 'raw, 'e) msgp_in \<Rightarrow> 'raw message \<Rightarrow> 's
       \<Rightarrow> 'raw message \<times> 's \<times> 'e goerr option" where
  "decode_error_element wrap_nil S z dc =
     (let (isnil, dc) = IsNil S dc in
      if isnil then
        let (dc, err) = ReadNil S dc in
        if err \<noteq> None then (z, dc, wrap_nil err) else (z\<lparr>Error := None\<rparr>, dc, None)
      else Message_decode_Error S z dc)"

definition Message_decode_with ::
    "('e goerr option \<Rightarrow> 'e goerr option) \<Rightarrow> ('s, 'raw, 'e) msgp_in \<Rightarrow> 'raw message \<Rightarrow> 's
       \<Rightarrow> 'raw message \<times> 's \<times> 'e goerr option" where
  "Message_decode_with wrap_nil S z dc =
     (let (zb0001, dc, err) = ReadArrayHeader S dc in
      if err \<noteq> None then (z, dc, wrap err []) else
      if zb0001 \<noteq> 5 then (z, dc, Some (ArrayError 5 zb0001)) else
      let (v, dc, err) = ReadUint64 S dc; z = z\<lparr>ID := v\<rparr> in
      if err \<noteq> None then (z, dc, wrap err [''ID'']) else
      let (v, dc, err) = ReadString S dc; z = z\<lparr>Func := v\<rparr> in
      if err \<noteq> None then (z, dc, wrap err [''Func'']) else
      let (v, dc, err) = Raw_Read S (Args z) dc; z = z\<lparr>Args := v\<rparr> in
      if err \<noteq> None then (z, dc, wrap err [''Args'']) else
      let (v, dc, err) = Raw_Read S (Result z) dc; z = z\<lparr>Result := v\<rparr> in
      if err \<noteq> None then (z, dc, wrap err [''Result'']) else
      decode_error_element wrap_nil S z dc)"

lemma Message_DecodeMsg_with: "Message_DecodeMsg = Message_decode_with (\<lambda>err. wrap err [''Error''])"
  by (intro ext) (simp only: Message_DecodeMsg_def Message_decode_with_def decode_error_element_def)

lemma Message_unmarshal_with: "Message_unmarshal = Message_decode_with (\<lambda>err. err)"
  by (intro ext) (simp only: Message_unmarshal_def Message_decode_with_def decode_error_element_def)

section \<open>Refinement\<close>

lemma deref_update [simp]:
  "deref mm (z\<lparr>ID := i\<rparr>) = (deref mm z)\<lparr>ID := i\<rparr>"
  "deref mm (z\<lparr>Func := f\<rparr>) = (deref mm z)\<lparr>Func := f\<rparr>"
  "deref mm (z\<lparr>Args := a\<rparr>) = (deref mm z)\<lparr>Args := contents mm a\<rparr>"
  "deref mm (z\<lparr>Result := a\<rparr>) = (deref mm z)\<lparr>Result := contents mm a\<rparr>"
  "deref mm (z\<lparr>Error := e\<rparr>) = (deref mm z)\<lparr>Error := e\<rparr>"
  by (simp_all add: deref_def)

lemma deref_sel [simp]:
  "ID (deref mm z) = ID z" "Func (deref mm z) = Func z" "Error (deref mm z) = Error z"
  "Args (deref mm z) = contents mm (Args z)" "Result (deref mm z) = contents mm (Result z)"
  by (simp_all add: deref_def)

text \<open>
  \<open>tracks ss z mm z' mm'\<close>: the buffers of \<open>z\<close> became those of \<open>z'\<close>, nothing is shared, and the
  other live slices \<open>ss\<close> are as they were.
\<close>

definition tracks :: "slice list \<Rightarrow> slice message \<Rightarrow> mem \<Rightarrow> slice message \<Rightarrow> mem \<Rightarrow> bool" where
  "tracks ss z mm z' mm' \<longleftrightarrow> separated mm' (slices z' @ ss) \<and>
     (\<forall>t \<in> set ss. contents mm' t = contents mm t) \<and> frame (message_arrays z) mm mm' \<and>
     (\<forall>a \<in> set (message_arrays z'). a \<in> set (message_arrays z) \<or> length mm \<le> a)"

lemma decode_Error_mem:
  "Message_decode_Error (mem_in store S) z (mm, s) =
     (case Message_decode_Error S (deref mm z) s of (zv, s', err) \<Rightarrow> (z\<lparr>Error := Error zv\<rparr>, (mm, s'), err))"
  by (auto simp: Message_decode_Error_def mem_in_def Let_def split: prod.splits)

lemma decode_Error_fields:
  "Message_decode_Error S y s = (zv, s', err) \<Longrightarrow> y\<lparr>Error := Error zv\<rparr> = zv"
  by (auto simp: Message_decode_Error_def Let_def intro!: message.equality split: prod.splits if_splits)

lemma mem_in_simps [simp]:
  "ReadArrayHeader (mem_in store S) (mm, s) = (case ReadArrayHeader S s of (v, s, err) \<Rightarrow> (v, (mm, s), err))"
  "ReadUint64 (mem_in store S) (mm, s) = (case ReadUint64 S s of (v, s, err) \<Rightarrow> (v, (mm, s), err))"
  "ReadString (mem_in store S) (mm, s) = (case ReadString S s of (v, s, err) \<Rightarrow> (v, (mm, s), err))"
  "IsNil (mem_in store S) (mm, s) = (case IsNil S s of (b, s) \<Rightarrow> (b, (mm, s)))"
  "ReadNil (mem_in store S) (mm, s) = (case ReadNil S s of (s, err) \<Rightarrow> ((mm, s), err))"
  by (simp_all add: mem_in_def)

lemma error_element_mem:
  "decode_error_element wn (mem_in store S) z (mm, s) =
     (case decode_error_element wn S (deref mm z) s of (zv, s', err) \<Rightarrow> (z\<lparr>Error := Error zv\<rparr>, (mm, s'), err))"
  by (auto simp: decode_error_element_def decode_Error_mem Let_def split: prod.splits)

lemma error_element_fields:
  "decode_error_element wn S y s = (zv, s', err) \<Longrightarrow> y\<lparr>Error := Error zv\<rparr> = zv"
  by (auto simp: decode_error_element_def Let_def split: prod.splits if_splits dest: decode_Error_fields)

lemma tracks_refl: "separated mm (slices z @ ss) \<Longrightarrow> tracks ss z mm z mm"
  by (auto simp: tracks_def)

lemma tracks_fields:
  assumes "tracks ss z mm z' mm'" and "Args z'' = Args z'" and "Result z'' = Result z'"
  shows "tracks ss z mm z'' mm'"
  using assms by (simp add: tracks_def slices_def message_arrays_def)

context buffer_store
begin

lemma raw_mem:
  assumes "separated mm (raw # ss)"
    and "Raw_Read (mem_in store S) raw (mm, s) = (raw', (mm', s'), err)"
  shows "Raw_Read S (contents mm raw) s = (contents mm' raw', s', err)"
    and "separated mm' (raw' # ss)" and "\<forall>t \<in> set ss. contents mm' t = contents mm t"
    and "frame (arrays raw) mm mm'" and "\<forall>a \<in> set (arrays raw'). a \<in> set (arrays raw) \<or> length mm \<le> a"
proof -
  obtain w where w: "Raw_Read S (contents mm raw) s = (w, s', err)" "store mm raw w = (raw', mm')"
    using assms(2) by (auto simp: mem_in_def split: prod.splits)
  from store_separated [OF assms(1) w(2)] w(1)
  show "Raw_Read S (contents mm raw) s = (contents mm' raw', s', err)"
    and "separated mm' (raw' # ss)" and "\<forall>t \<in> set ss. contents mm' t = contents mm t"
    and "frame (arrays raw) mm mm'" and "\<forall>a \<in> set (arrays raw'). a \<in> set (arrays raw) \<or> length mm \<le> a"
    by auto
qed

text \<open>The two payloads, read one after the other into a message that has its other fields.\<close>

lemma tracks_Args:
  assumes "separated mm (slices z @ ss)"
    and "Raw_Read (mem_in store S) (Args z) (mm, s) = (a, (mm1, s1), err)"
  shows "Raw_Read S (contents mm (Args z)) s = (contents mm1 a, s1, err)"
    and "contents mm1 (Result z) = contents mm (Result z)"
    and "tracks ss z mm (z\<lparr>Args := a\<rparr>) mm1"
proof -
  have "separated mm (Args z # Result z # ss)" using assms(1) by (simp add: slices_def)
  note p = raw_mem [OF this assms(2)]
  show "Raw_Read S (contents mm (Args z)) s = (contents mm1 a, s1, err)"
    "contents mm1 (Result z) = contents mm (Result z)" using p by auto
  have "frame (message_arrays z) mm mm1"
    using p(4) by (rule frame_weaken) (simp add: message_arrays_def)
  with p show "tracks ss z mm (z\<lparr>Args := a\<rparr>) mm1"
    by (auto simp: tracks_def slices_def message_arrays_def)
qed

lemma tracks_Result:
  assumes tr: "tracks ss z mm z1 mm1"
    and run: "Raw_Read (mem_in store S) (Result z1) (mm1, s) = (b, (mm2, s2), err)"
  shows "Raw_Read S (contents mm1 (Result z1)) s = (contents mm2 b, s2, err)"
    and "contents mm2 (Args z1) = contents mm1 (Args z1)"
    and "tracks ss z mm (z1\<lparr>Result := b\<rparr>) mm2"
proof -
  have "separated mm1 (Result z1 # Args z1 # ss)"
    using tr by (auto simp: tracks_def slices_def intro: separated_swap)
  note p = raw_mem [OF this run]
  show "Raw_Read S (contents mm1 (Result z1)) s = (contents mm2 b, s2, err)"
    "contents mm2 (Args z1) = contents mm1 (Args z1)" using p by auto
  have "frame (message_arrays z) mm mm1" and own: "\<forall>a \<in> set (message_arrays z1). a \<in> set (message_arrays z) \<or> length mm \<le> a"
    using tr by (simp_all add: tracks_def)
  from this(1) p(4) have fr: "frame (message_arrays z) mm mm2"
    by (rule frame_trans) (use own in \<open>simp add: message_arrays_def\<close>)
  with p tr show "tracks ss z mm (z1\<lparr>Result := b\<rparr>) mm2"
    by (auto simp: tracks_def slices_def message_arrays_def frame_def intro: separated_swap)
qed

end

context buffer_store
begin

text \<open>Once array header, identifier and function are read, the payloads and the error are left.\<close>

lemma decode_payloads_mem:
  assumes sep: "separated mm (slices z @ ss)"
    and run: "Message_decode_with wn (mem_in store S) z (mm, s) = (z', (mm', s'), err)"
    and head: "ReadArrayHeader S s = (5, s0, None)" "ReadUint64 S s0 = (i, s1, None)" "ReadString S s1 = (f, s2, None)"
  shows "Message_decode_with wn S (deref mm z) s = (deref mm' z', s', err) \<and> tracks ss z mm z' mm'"
proof -
  let ?z = "z\<lparr>ID := i, Func := f\<rparr>"
  obtain a mm1 s3 e3 where r3: "Raw_Read (mem_in store S) (Args z) (mm, s2) = (a, (mm1, s3), e3)"
    by (metis prod.collapse)
  note p3 = tracks_Args [OF sep r3]
  have tr3: "tracks ss z mm (?z\<lparr>Args := a\<rparr>) mm1" using p3(3) by (rule tracks_fields) simp_all
  obtain b mm2 s4 e4 where r4: "Raw_Read (mem_in store S) (Result z) (mm1, s3) = (b, (mm2, s4), e4)"
    by (metis prod.collapse)
  note p4 = tracks_Result [OF tr3, simplified, OF r4]
  let ?zr = "?z\<lparr>Args := a, Result := b\<rparr>"
  let ?v = "(deref mm z)\<lparr>ID := i, Func := f, Args := contents mm1 a, Result := contents mm2 b\<rparr>"
  obtain zv s5 e5 where r5: "decode_error_element wn S ?v s4 = (zv, s5, e5)" by (metis prod_cases3)
  have d: "deref mm2 ?zr = ?v" using p4(2) by (simp add: deref_def)
  obtain er where er: "Error zv = er" by blast
  have tail: "decode_error_element wn (mem_in store S) ?zr (mm2, s4) = (?zr\<lparr>Error := er\<rparr>, (mm2, s5), e5)"
    by (simp only: error_element_mem d r5 prod.case er)
  have zd: "deref mm2 (?zr\<lparr>Error := er\<rparr>) = zv"
    using error_element_fields [OF r5] d by (simp only: deref_update(5) er)
  note reads = head r3 r4 r5 p3(1,2) p4(1,2)
  show ?thesis
  proof (cases e3)
    case (Some e)
    with run reads have "z' = ?z\<lparr>Args := a\<rparr> \<and> mm' = mm1 \<and>
        Message_decode_with wn S (deref mm z) s = (deref mm' z', s', err)"
      by (auto simp: Message_decode_with_def Let_def deref_def)
    with tr3 show ?thesis by simp
  next
    case None
    with run reads tail zd d
    have "Args z' = a \<and> Result z' = b \<and> mm' = mm2 \<and>
        Message_decode_with wn S (deref mm z) s = (deref mm' z', s', err)"
      by (cases e4) (auto simp: Message_decode_with_def Let_def simp del: deref_update)
    with tracks_fields [OF p4(3), of z'] show ?thesis by simp
  qed
qed

lemma decode_with_mem:
  assumes sep: "separated mm (slices z @ ss)"
    and run: "Message_decode_with wn (mem_in store S) z (mm, s) = (z', (mm', s'), err)"
  shows "Message_decode_with wn S (deref mm z) s = (deref mm' z', s', err) \<and> tracks ss z mm z' mm'"
proof -
  obtain n s0 e0 where r0: "ReadArrayHeader S s = (n, s0, e0)" by (metis prod_cases3)
  obtain i s1 e1 where r1: "ReadUint64 S s0 = (i, s1, e1)" by (metis prod_cases3)
  obtain f s2 e2 where r2: "ReadString S s1 = (f, s2, e2)" by (metis prod_cases3)
  note same = tracks_fields [OF tracks_refl [OF sep]]
  consider (early) "e0 \<noteq> None \<or> n \<noteq> 5 \<or> e1 \<noteq> None \<or> e2 \<noteq> None"
    | (later) "e0 = None" "n = 5" "e1 = None" "e2 = None" by blast
  then show ?thesis
  proof cases
    case early
    with r0 r1 r2 run
    have "Args z' = Args z \<and> Result z' = Result z \<and> mm' = mm \<and>
        Message_decode_with wn S (deref mm z) s = (deref mm z', s', err)"
      by (auto simp: Message_decode_with_def Let_def split: if_splits)
    then show ?thesis using same [of z'] by simp
  next
    case later
    with decode_payloads_mem [OF sep run] r0 r1 r2 show ?thesis by simp
  qed
qed

end

end
