(* ===== verification/Map_Codec.thy ===== *)
theory Map_Codec
  imports Msgp
begin

text \<open>
  What the generated codecs of all map-encoded types share. msgp writes such a type as a map
  from field names to values; its decoders are one loop over the announced number of entries,
  with a switch over the key. \<open>decode_fields\<close> is the loop, the switch is its argument.

  \<open>decode_fields_reads\<close> is the lemma every round trip of such a type rests on: a list of
  entries, in any order, with repetitions and with keys the switch does not know, is decoded by
  applying each entry's effect in turn.
\<close>

section \<open>The loop\<close>

primrec decode_fields ::
    "('s, 'raw, 'e) msgp_in \<Rightarrow> (string \<Rightarrow> 'z \<Rightarrow> 's \<Rightarrow> 'z \<times> 's \<times> 'e goerr option) \<Rightarrow> nat \<Rightarrow> 'z \<Rightarrow> 's
       \<Rightarrow> 'z \<times> 's \<times> 'e goerr option" where
  "decode_fields S sw 0 z s = (z, s, None)"
| "decode_fields S sw (Suc n) z s =
     (let (field, s, err) = ReadMapKey S s in
      if err \<noteq> None then (z, s, wrap err []) else
      let (z, s, err) = sw field z s in
      if err \<noteq> None then (z, s, err) else
      decode_fields S sw n z s)"

text \<open>The header, then the loop: the body of \<open>DecodeMsg\<close> and \<open>UnmarshalMsg\<close>.\<close>

definition decode_map ::
    "('s, 'raw, 'e) msgp_in \<Rightarrow> (string \<Rightarrow> 'z \<Rightarrow> 's \<Rightarrow> 'z \<times> 's \<times> 'e goerr option) \<Rightarrow> 'z \<Rightarrow> 's
       \<Rightarrow> 'z \<times> 's \<times> 'e goerr option" where
  "decode_map S sw z s =
     (let (zb0001, s, err) = ReadMapHeader S s in
      if err \<noteq> None then (z, s, wrap err []) else decode_fields S sw (unat zb0001) z s)"

text \<open>The \<open>default\<close> branch of every switch.\<close>

definition skip_field :: "('s, 'raw, 'e) msgp_in \<Rightarrow> 'z \<Rightarrow> 's \<Rightarrow> 'z \<times> 's \<times> 'e goerr option" where
  "skip_field S z s = (let (s, err) = Skip S s in (z, s, wrap err []))"

section \<open>Entries\<close>

text \<open>An entry of a map: its key, the bytes of its value, and what decoding it does.\<close>

type_synonym 'z entry = "string \<times> bytes \<times> ('z \<Rightarrow> 'z)"

definition entry_form :: "'z entry \<Rightarrow> bytes" where
  "entry_form e = fixstr (fst e) @ fst (snd e)"

definition entry_ok :: "('s \<Rightarrow> bytes) \<Rightarrow> (string \<Rightarrow> 'z \<Rightarrow> 's \<Rightarrow> 'z \<times> 's \<times> 'e goerr option) \<Rightarrow> 'z entry \<Rightarrow> bool" where
  "entry_ok view sw e \<longleftrightarrow> length (fst e) < 32 \<and>
     (\<forall>z. reads view (sw (fst e) z) (fst (snd e)) (snd (snd e) z))"

definition map_form :: "'z entry list \<Rightarrow> bytes" where
  "map_form es = (0x80 + word_of_nat (length es)) # concat (map entry_form es)"

definition apply_entries :: "'z entry list \<Rightarrow> 'z \<Rightarrow> 'z" where
  "apply_entries es z = foldl (\<lambda>z e. snd (snd e) z) z es"

declare map_form_def [wire_simps] entry_form_def [wire_simps] fixstr_def [wire_simps]
  str_bytes_def [wire_simps] byte_of_char_def [wire_simps]

lemma apply_entries_simps [simp]:
  "apply_entries [] z = z" "apply_entries (e # es) z = apply_entries es (snd (snd e) z)"
  by (simp_all add: apply_entries_def)

context msgp_encoding
begin

lemma obj_map_form:
  assumes "length es < 16" and "list_all (\<lambda>e. length (fst e) < 32 \<and> obj (fst (snd e))) es"
  shows "obj (map_form es)"
proof -
  let ?parts = "concat (map (\<lambda>e. [fixstr (fst e), fst (snd e)]) es)"
  have "list_all obj ?parts" using assms(2) obj_fixstr by (induction es) auto
  moreover have "length ?parts = 2 * length es" by (induction es) auto
  moreover have "concat ?parts = concat (map entry_form es)" by (induction es) (auto simp: entry_form_def)
  ultimately show ?thesis using obj_fixmap [of ?parts "length es"] assms(1) by (simp add: map_form_def)
qed

end

context msgp_decoding
begin

lemma decode_fields_reads:
  "list_all (entry_ok view sw) es \<Longrightarrow>
   reads view (decode_fields S sw (length es) z) (concat (map entry_form es)) (apply_entries es z)"
proof (induction es arbitrary: z)
  case Nil
  show ?case by (simp add: reads_def)
next
  case (Cons e es)
  show ?case
  proof (rule readsI)
    fix s rest
    assume "view s = concat (map entry_form (e # es)) @ rest"
    then have s: "view s = fixstr (fst e) @ fst (snd e) @ concat (map entry_form es) @ rest"
      by (simp add: entry_form_def)
    have ok: "length (fst e) < 32" "reads view (sw (fst e) z) (fst (snd e)) (snd (snd e) z)"
      using Cons.prems by (simp_all add: entry_ok_def)
    obtain s1 where s1: "ReadMapKey S s = (fst e, s1, None)"
      "view s1 = fst (snd e) @ concat (map entry_form es) @ rest"
      by (rule readsE [OF read_map_key [OF ok(1)] s])
    obtain s2 where s2: "sw (fst e) z s1 = (snd (snd e) z, s2, None)"
      "view s2 = concat (map entry_form es) @ rest"
      by (rule readsE [OF ok(2) s1(2)])
    have "list_all (entry_ok view sw) es" using Cons.prems by simp
    from readsE [OF Cons.IH [OF this] s2(2)] obtain s3 where
      "decode_fields S sw (length es) (snd (snd e) z) s2 = (apply_entries (e # es) z, s3, None)"
      "view s3 = rest"
      by auto
    with s1(1) s2(1)
    show "\<exists>s'. decode_fields S sw (length (e # es)) z s = (apply_entries (e # es) z, s', None) \<and> view s' = rest"
      by simp
  qed
qed

lemma decode_map_reads:
  assumes "length es < 16" and "list_all (entry_ok view sw) es"
  shows "reads view (decode_map S sw z) (map_form es) (apply_entries es z)"
proof (rule readsI)
  fix s rest
  assume s: "view s = map_form es @ rest"
  then have "view s = [0x80 + word_of_nat (length es)] @ concat (map entry_form es) @ rest"
    by (simp add: map_form_def)
  from readsE [OF read_map_header [OF assms(1)] this] obtain s1 where
    s1: "ReadMapHeader S s = (word_of_nat (length es), s1, None)" "view s1 = concat (map entry_form es) @ rest" .
  have "unat (word_of_nat (length es) :: u32) = length es"
    using assms(1) by (simp add: unat_of_nat take_bit_nat_eq_self)
  with s1 readsE [OF decode_fields_reads [OF assms(2)] s1(2), of z]
  show "\<exists>s'. decode_map S sw z s = (apply_entries es z, s', None) \<and> view s' = rest"
    by (auto simp: decode_map_def)
qed

lemma skip_field_reads: "obj w \<Longrightarrow> reads view (skip_field S z) w z"
  using skip by (fastforce simp: reads_def skip_field_def)

end

text \<open>Reading one field: the value is assigned, an error wrapped with the field's name.\<close>

definition read_field ::
    "('s \<Rightarrow> 'a \<times> 's \<times> 'e goerr option) \<Rightarrow> ('a \<Rightarrow> 'z \<Rightarrow> 'z) \<Rightarrow> string \<Rightarrow> 'z \<Rightarrow> 's \<Rightarrow> 'z \<times> 's \<times> 'e goerr option" where
  "read_field rd set_field ctx z s = (let (v, s, err) = rd s in (set_field v z, s, wrap err [ctx]))"

lemma read_field_reads: "reads view rd enc v \<Longrightarrow> z' = upd v z \<Longrightarrow> reads view (read_field rd upd ctx z) enc z'"
  by (fastforce simp: reads_def read_field_def)

section \<open>What the generated code of a map type has to get right\<close>

text \<open>
  The contract between a generated encoder and the list of entries it stands for, and between
  the generated switch and the same list. The round trip is proved from it once for all types.
\<close>

locale map_codec = msgp_encoding A obj
  for A :: "'e msgp_append" and obj :: "bytes \<Rightarrow> bool" +
  fixes ok :: "'z \<Rightarrow> bool"
    and entries :: "'z \<Rightarrow> 'z entry list"
    and marshal_msg :: "'z \<Rightarrow> bytes \<Rightarrow> bytes \<times> 'e goerr option"
    and msgsize :: "'z \<Rightarrow> nat"
  assumes entries_short: "length (entries v) < 16"
    and entries_objects: "ok v \<Longrightarrow> list_all (\<lambda>e. length (fst e) < 32 \<and> obj (fst (snd e))) (entries v)"
    and entries_apply: "apply_entries (entries v) z = v"
    and marshal_form: "marshal_msg v b = (b @ map_form (entries v), None)"
    and entries_size: "ok v \<Longrightarrow> length (map_form (entries v)) \<le> msgsize v"
begin

lemma obj_form: "ok v \<Longrightarrow> obj (map_form (entries v))"
  by (rule obj_map_form [OF entries_short entries_objects])

lemma marshal_size: "ok v \<Longrightarrow> length (fst (marshal_msg v b)) \<le> length b + msgsize v"
  using entries_size [of v] by (simp add: marshal_form)

end

locale map_decoder = map_codec A obj ok entries marshal_msg msgsize + msgp_decoding A obj S view
  for A :: "'e msgp_append" and obj and ok :: "'z \<Rightarrow> bool" and entries marshal_msg msgsize
    and S :: "('s, bytes, 'e) msgp_in" and view :: "'s \<Rightarrow> bytes" +
  fixes sw :: "string \<Rightarrow> 'z \<Rightarrow> 's \<Rightarrow> 'z \<times> 's \<times> 'e goerr option"
  assumes entries_known: "ok v \<Longrightarrow> list_all (entry_ok view sw) (entries v)"
begin

lemma decode_reads: "ok v \<Longrightarrow> reads view (decode_map S sw z) (map_form (entries v)) v"
  using decode_map_reads [OF entries_short entries_known, of v z] by (simp add: entries_apply)

end

text \<open>The first byte of a map says so: its encoding is never nil.\<close>

lemma map_form_not_nil:
  assumes "length es < 16"
  shows "map_form es \<noteq> [nil_byte]"
proof -
  have "unat ((0x80 :: u8) + word_of_nat (length es)) = 128 + length es"
    using assms by (simp add: unat_word_ariths unat_of_nat take_bit_nat_eq_self)
  then have "(0x80 :: u8) + word_of_nat (length es) \<noteq> 0xc0"
    using assms by auto
  then show ?thesis by (simp add: map_form_def nil_byte_def)
qed

section \<open>A codec of a type\<close>

text \<open>
  What a user of a generated type may rely on, whatever the type: it marshals to one object
  that is not nil, and unmarshaling that object into any receiver gives the value back.
\<close>

locale msgp_type =
  fixes obj :: "bytes \<Rightarrow> bool"
    and ok :: "'z \<Rightarrow> bool"
    and marshal_msg :: "'z \<Rightarrow> bytes \<Rightarrow> bytes \<times> 'e goerr option"
    and unmarshal_msg :: "'z \<Rightarrow> bytes \<Rightarrow> 'z \<times> bytes \<times> 'e goerr option"
  assumes marshals: "ok v \<Longrightarrow> \<exists>w. marshal_msg v b = (b @ w, None) \<and> obj w \<and> w \<noteq> [nil_byte] \<and> w \<noteq> [] \<and>
      (\<forall>z rest. unmarshal_msg z (w @ rest) = (v, rest, None))"
begin

lemma roundtrip:
  assumes "ok v"
  shows "unmarshal_msg z (fst (marshal_msg v []) @ rest) = (v, rest, None)"
  using marshals [OF assms, of "[]"] by auto

lemma payload:
  assumes "ok v"
  shows "obj (fst (marshal_msg v [])) \<and> fst (marshal_msg v []) \<noteq> [nil_byte] \<and> fst (marshal_msg v []) \<noteq> [] \<and>
    snd (marshal_msg v []) = None"
  using marshals [OF assms, of "[]"] by auto

end

text \<open>
  \<open>UnmarshalMsg\<close> of every map type is the loop on the byte slice, with \<open>o\<close> assigned at the end.
  A type whose parts keep the contract above is then a \<open>msgp_type\<close>.
\<close>

definition unmarshal_map ::
    "(bytes, 'raw, 'e) msgp_in \<Rightarrow> (string \<Rightarrow> 'z \<Rightarrow> bytes \<Rightarrow> 'z \<times> bytes \<times> 'e goerr option) \<Rightarrow> 'z \<Rightarrow> bytes
       \<Rightarrow> 'z \<times> bytes \<times> 'e goerr option" where
  "unmarshal_map S sw z bts =
     (let (z, bts, err) = decode_map S sw z bts
      in (z, (if err = None then bts else []), err))"

lemma msgp_type_of_decoder:
  assumes "map_decoder A obj ok entries marshal_msg msgsize S (\<lambda>s. s) sw"
    and "unmarshal_msg = unmarshal_map S sw"
  shows "msgp_type obj ok marshal_msg unmarshal_msg"
proof unfold_locales
  note d = assms(1) and c = map_decoder.axioms(1) [OF assms(1)]
  fix v b
  assume ok: "ok v"
  let ?w = "map_form (entries v)"
  have "unmarshal_msg z (?w @ rest) = (v, rest, None)" for z rest
    using map_decoder.decode_reads [OF d ok, of z] by (simp add: reads_def assms(2) unmarshal_map_def)
  moreover have "?w \<noteq> [nil_byte]" using map_codec.entries_short [OF c] by (rule map_form_not_nil)
  ultimately show "\<exists>w. marshal_msg v b = (b @ w, None) \<and> obj w \<and> w \<noteq> [nil_byte] \<and> w \<noteq> [] \<and>
      (\<forall>z rest. unmarshal_msg z (w @ rest) = (v, rest, None))"
    using map_codec.marshal_form [OF c, of v b] map_codec.obj_form [OF c ok] by (auto simp: map_form_def)
qed

end
