(* ===== verification/Ownership.thy ===== *)
theory Ownership
  imports Mem_Decode
begin

text \<open>
  Who owns which buffer. Several goroutines use package \<open>mpc\<close> at once: writers that hold a wire
  message of the pool, readers that decode into the wire message of their codec, and birpc and
  its services, which hold the payloads they were given. The state below is all of them, the
  step relation lets any of them make its next call in any order, and the invariant is that no
  two live buffers share an array and that no payload changes once it was handed over.

  The calls are atomic here. In the code each of them works on buffers its goroutine owns, on
  the pool, which synchronises itself, or under the codec's mutex.
\<close>

section \<open>States and steps\<close>

record system =
  sys_mem :: mem
  pool :: "slice message list"      \<comment> \<open>what \<open>messages\<close> holds\<close>
  writing :: "slice message list"   \<comment> \<open>messages between \<open>GetMessage\<close> and \<open>PutMessage\<close>\<close>
  wires :: "slice message list"     \<comment> \<open>the \<open>wire\<close> field of every codec\<close>
  given_out :: "(slice \<times> bytes) list" \<comment> \<open>payloads in birpc's hands, with the bytes they had when handed over\<close>

definition init_system :: system where
  "init_system = \<lparr>sys_mem = [], pool = [], writing = [], wires = [], given_out = []\<rparr>"

definition remove_at :: "nat \<Rightarrow> 'a list \<Rightarrow> 'a list" where
  "remove_at i xs = take i xs @ drop (Suc i) xs"

definition payload_slices :: "'v birpc_message \<Rightarrow> slice list" where
  "payload_slices msg = iface_slices (msg_Args msg) @ iface_slices (msg_Result msg)"

text \<open>
  \<open>fill\<close>: a service may send on a payload it was given, but owns no other raw slice that the
  codecs know. \<open>decode\<close> is any outcome of the decoder, a failure in the middle included.
\<close>

inductive sys_step ::
    "('v, 'e) go_types \<Rightarrow> 'e msgp_append \<Rightarrow> store \<Rightarrow> ('s, bytes, 'e) msgp_in \<Rightarrow> system \<Rightarrow> system \<Rightarrow> bool"
  for T :: "('v, 'e) go_types" and A store S where
  get: "GetMessage pick (pool s) = (m, pool') \<Longrightarrow>
     sys_step T A store S s (s\<lparr>pool := pool', writing := m # writing s\<rparr>)"
| fill: "i < length (writing s) \<Longrightarrow> set (payload_slices msg) \<subseteq> fst ` set (given_out s) \<Longrightarrow>
     ToWire T A store (sys_mem s) (writing s ! i) (msg :: 'v birpc_message) = (m', mm', err) \<Longrightarrow>
     sys_step T A store S s (s\<lparr>sys_mem := mm', writing := (writing s)[i := m']\<rparr>)"
| put: "i < length (writing s) \<Longrightarrow>
     sys_step T A store S s
       (s\<lparr>pool := PutMessage (writing s ! i) (pool s), writing := remove_at i (writing s)\<rparr>)"
| collect: "i < length (pool s) \<Longrightarrow> sys_step T A store S s (s\<lparr>pool := remove_at i (pool s)\<rparr>)"
| new_codec: "sys_step T A store S s (s\<lparr>wires := new_Message # wires s\<rparr>)"
| decode: "i < length (wires s) \<Longrightarrow>
     Message_DecodeMsg (mem_in store S) (wires s ! i) (sys_mem s, src) = (z', (mm', src'), err) \<Longrightarrow>
     sys_step T A store S s (s\<lparr>sys_mem := mm', wires := (wires s)[i := z']\<rparr>)"
| unmarshal: "i < length (wires s) \<Longrightarrow>
     Message_unmarshal (mem_in store S) (wires s ! i) (sys_mem s, src) = (z', (mm', src'), err) \<Longrightarrow>
     sys_step T A store S s (s\<lparr>sys_mem := mm', wires := (wires s)[i := z']\<rparr>)"
| hand_over: "i < length (wires s) \<Longrightarrow>
     FromWire (sys_mem s) (msg :: 'v birpc_message) (wires s ! i) = (msg', m', mm') \<Longrightarrow>
     sys_step T A store S s
       (s\<lparr>sys_mem := mm', wires := (wires s)[i := m'],
          given_out := map (\<lambda>r. (r, contents mm' r)) (payload_slices msg') @ given_out s\<rparr>)"

inductive sys_reachable ::
    "('v, 'e) go_types \<Rightarrow> 'e msgp_append \<Rightarrow> store \<Rightarrow> ('s, bytes, 'e) msgp_in \<Rightarrow> system \<Rightarrow> bool"
  for T A store S where
  start: "sys_reachable T A store S init_system"
| step: "sys_reachable T A store S s \<Longrightarrow> sys_step T A store S s t \<Longrightarrow> sys_reachable T A store S t"

inductive_cases sys_stepE: "sys_step T A store S s t"

section \<open>The invariant\<close>

definition all_messages :: "system \<Rightarrow> slice message list" where
  "all_messages s = pool s @ writing s @ wires s"

definition live :: "system \<Rightarrow> slice list" where
  "live s = concat (map slices (all_messages s)) @ map fst (given_out s)"

definition idle_ok :: "slice message \<Rightarrow> bool" where
  "idle_ok m \<longleftrightarrow> Error m = None \<and> go_len (Args m) = 0 \<and> go_len (Result m) = 0 \<and>
     go_cap (Args m) \<le> maxKeptBuffer \<and> go_cap (Result m) \<le> maxKeptBuffer"

definition sys_inv :: "system \<Rightarrow> bool" where
  "sys_inv s \<longleftrightarrow> separated (sys_mem s) (live s) \<and>
     (\<forall>(r, bs) \<in> set (given_out s). contents (sys_mem s) r = bs) \<and> list_all idle_ok (pool s)"

lemma mset_remove_at: "i < length xs \<Longrightarrow> mset xs = add_mset (xs ! i) (mset (remove_at i xs))"
  by (metis id_take_nth_drop mset_append mset.simps(2) remove_at_def union_mset_add_mset_right)

lemma mset_update_at: "i < length xs \<Longrightarrow> mset (xs[i := x]) = add_mset x (mset (remove_at i xs))"
  by (simp add: remove_at_def upd_conv_take_nth_drop)

lemma mset_slices: "mset (concat (map slices ms)) = \<Sum>\<^sub># (image_mset (\<lambda>m. mset (slices m)) (mset ms))"
  by (induction ms) auto

definition rest_of :: "slice message multiset \<Rightarrow> system \<Rightarrow> slice multiset" where
  "rest_of ms s = \<Sum>\<^sub># (image_mset (\<lambda>m. mset (slices m)) ms) + mset (map fst (given_out s))"

lemma mset_live: "mset (live s) = rest_of (mset (all_messages s)) s"
  by (simp add: live_def mset_slices rest_of_def)

text \<open>
  One message is replaced, the others and the given payloads stay: the shape of every step.
\<close>

lemma live_focus:
  assumes "mset (all_messages s) = add_mset m ms"
  obtains rest where "mset (live s) = mset (slices m @ rest)" and "mset rest = rest_of ms s"
    and "set (map fst (given_out s)) \<subseteq> set rest"
proof -
  obtain rest where r: "mset rest = rest_of ms s" using ex_mset by blast
  have "mset (live s) = mset (slices m @ rest)"
    using assms r by (simp add: mset_live rest_of_def)
  moreover have "set (map fst (given_out s)) \<subseteq> set rest"
    by (metis r rest_of_def mset_subset_eq_add_right set_mset_mono set_mset_mset)
  ultimately show thesis using that r by blast
qed

lemma inv_replace:
  assumes inv: "sys_inv s"
    and here: "mset (all_messages s) = add_mset m ms" and there: "mset (all_messages t) = add_mset m' ms"
    and new: "given_out t = map (\<lambda>r. (r, contents (sys_mem t) r)) new @ given_out s"
    and idle: "list_all idle_ok (pool t)"
    and op: "\<And>ss. separated (sys_mem s) (slices m @ ss) \<Longrightarrow> set (map fst (given_out s)) \<subseteq> set ss \<Longrightarrow>
      separated (sys_mem t) (slices m' @ new @ ss) \<and> (\<forall>r \<in> set ss. contents (sys_mem t) r = contents (sys_mem s) r)"
  shows "sys_inv t"
proof -
  obtain rest where rest: "mset (live s) = mset (slices m @ rest)" "mset rest = rest_of ms s"
    "set (map fst (given_out s)) \<subseteq> set rest"
    by (rule live_focus [OF here])
  have "separated (sys_mem s) (live s)" using inv by (simp add: sys_inv_def)
  then have "separated (sys_mem s) (slices m @ rest)" using rest(1) by (rule separated_msetD)
  from op [OF this rest(3)] have sep: "separated (sys_mem t) (slices m' @ new @ rest)"
    and same: "\<forall>r \<in> set rest. contents (sys_mem t) r = contents (sys_mem s) r" by auto
  have "mset (live t) = mset (slices m' @ new @ rest)"
    using there new rest(2) by (simp add: mset_live rest_of_def comp_def)
  from separated_msetD [OF sep this [symmetric]] have "separated (sys_mem t) (live t)" .
  moreover have "contents (sys_mem t) r = bs" if "(r, bs) \<in> set (given_out t)" for r bs
  proof (cases "(r, bs) \<in> set (given_out s)")
    case True
    then have "r \<in> set rest" using rest(3) by force
    with same inv True show ?thesis by (auto simp: sys_inv_def)
  next
    case False
    with that new show ?thesis by auto
  qed
  ultimately show ?thesis using idle by (auto simp: sys_inv_def)
qed

lemma separated_apart:
  assumes "separated mm (slices m @ ss)" and "set (iface_slices v) \<subseteq> set ss"
  shows "apart mm (message_arrays m) v"
proof (cases v)
  case (IRaw r)
  with assms show ?thesis
    by (auto simp: slices_def message_arrays_def separated_Cons) (auto simp: separated_def list_all_iff)
qed simp_all

lemma idle_keep: "idle_ok (m\<lparr>Args := keep (Args m), Result := keep (Result m), Error := None\<rparr>)"
  by (simp add: idle_ok_def go_cap_keep)

lemma PutMessage_eq:
  "PutMessage m ms = m\<lparr>Args := keep (Args m), Result := keep (Result m), Error := None\<rparr> # ms"
  by (simp add: PutMessage_def Let_def)

lemma idle_new: "idle_ok new_Message"
  by (simp add: idle_ok_def new_Message_def)

lemma list_all_remove_at: "list_all P xs \<Longrightarrow> list_all P (remove_at i xs)"
  by (auto simp: remove_at_def list_all_iff dest: in_set_takeD in_set_dropD)

lemma separated_subset_mset:
  assumes "separated mm ss" and "mset ss' \<subseteq># mset ss"
  shows "separated mm ss'"
proof -
  obtain ts where "mset (ss' @ ts) = mset ss"
    using assms(2) by (metis ex_mset mset_append subset_mset.add_diff_inverse)
  then have "separated mm (ss' @ ts)" using separated_msetD [OF assms(1)] by metis
  then show ?thesis using separated_append by blast
qed

lemma GetMessage_cases:
  assumes "GetMessage pick ms = (m, ms')"
  obtains "m = new_Message" "ms' = ms" | i where "i < length ms" "m = ms ! i" "ms' = remove_at i ms"
proof (cases "\<exists>i. pick = Some i \<and> i < length ms")
  case True
  then obtain i where "pick = Some i" "i < length ms" by blast
  with assms that(2) [of i] show ?thesis by (simp add: GetMessage_def remove_at_def)
next
  case False
  with assms that(1) show ?thesis by (cases pick) (simp_all add: GetMessage_def)
qed

lemma list_all_nth: "list_all P xs \<Longrightarrow> i < length xs \<Longrightarrow> P (xs ! i)"
  by (simp add: list_all_length)

text \<open>Steps that write no memory: buffers are only dropped, or nil ones added.\<close>

lemma inv_no_write:
  assumes "sys_inv s" and "sys_mem t = sys_mem s" and "given_out t = given_out s"
    and "mset (live t) + dropped = replicate_mset n SliceNil + mset (live s)" and "list_all idle_ok (pool t)"
  shows "sys_inv t"
proof -
  have "separated (sys_mem s) (replicate n SliceNil @ live s)"
    using assms(1) by (induction n) (simp_all add: sys_inv_def separated_nil)
  moreover have "mset (live t) \<subseteq># mset (replicate n SliceNil @ live s)"
    using assms(4) by (simp add: mset_subset_eq_exists_conv) metis
  ultimately have "separated (sys_mem s) (live t)" by (rule separated_subset_mset)
  with assms(1-3,5) show ?thesis by (simp add: sys_inv_def)
qed

lemma get_inv:
  assumes "sys_inv s" and "GetMessage pick (pool s) = (m, pool')"
  shows "sys_inv (s\<lparr>pool := pool', writing := m # writing s\<rparr>)"
  using assms(2)
proof (cases rule: GetMessage_cases)
  case 1
  have "mset (live (s\<lparr>pool := pool', writing := m # writing s\<rparr>)) + {#} = replicate_mset 2 SliceNil + mset (live s)"
    using 1 by (simp add: live_def all_messages_def slices_def new_Message_def numeral_2_eq_2)
  from inv_no_write [OF assms(1) _ _ this] assms(1) 1 show ?thesis by (simp add: sys_inv_def)
next
  case (2 i)
  then have "mset (pool s) = add_mset m (mset pool')" by (simp add: mset_remove_at)
  then have "mset (live (s\<lparr>pool := pool', writing := m # writing s\<rparr>)) + {#} = replicate_mset 0 SliceNil + mset (live s)"
    by (simp add: mset_live all_messages_def rest_of_def)
  from inv_no_write [OF assms(1) _ _ this] assms(1) 2 show ?thesis by (simp add: sys_inv_def list_all_remove_at)
qed

lemma put_inv:
  assumes "sys_inv s" and i: "i < length (writing s)"
  shows "sys_inv (s\<lparr>pool := PutMessage (writing s ! i) (pool s), writing := remove_at i (writing s)\<rparr>)"
proof (rule inv_replace [OF assms(1), where new = "[]"])
  let ?m = "writing s ! i" and ?ms = "pool s @ remove_at i (writing s) @ wires s"
  show "mset (all_messages s) = add_mset ?m (mset ?ms)"
    using i by (simp add: all_messages_def mset_remove_at)
  show "mset (all_messages (s\<lparr>pool := PutMessage ?m (pool s), writing := remove_at i (writing s)\<rparr>)) =
      add_mset (?m\<lparr>Args := keep (Args ?m), Result := keep (Result ?m), Error := None\<rparr>) (mset ?ms)"
    by (simp add: all_messages_def PutMessage_eq)
qed (use assms(1) in \<open>simp_all add: sys_inv_def PutMessage_eq idle_keep slices_def separated_keep_message\<close>)

lemma collect_inv:
  assumes "sys_inv s" and i: "i < length (pool s)"
  shows "sys_inv (s\<lparr>pool := remove_at i (pool s)\<rparr>)"
proof -
  have "mset (live (s\<lparr>pool := remove_at i (pool s)\<rparr>)) + mset (slices (pool s ! i)) =
      replicate_mset 0 SliceNil + mset (live s)"
    using i by (simp add: mset_live all_messages_def rest_of_def mset_remove_at)
  from inv_no_write [OF assms(1) _ _ this] assms(1) show ?thesis by (simp add: sys_inv_def list_all_remove_at)
qed

lemma new_codec_inv:
  assumes "sys_inv s"
  shows "sys_inv (s\<lparr>wires := new_Message # wires s\<rparr>)"
proof -
  have "mset (live (s\<lparr>wires := new_Message # wires s\<rparr>)) + {#} = replicate_mset 2 SliceNil + mset (live s)"
    by (simp add: live_def all_messages_def slices_def new_Message_def numeral_2_eq_2)
  from inv_no_write [OF assms _ _ this] assms show ?thesis by (simp add: sys_inv_def)
qed

text \<open>Steps that work on one message of \<open>writing\<close> or of \<open>wires\<close>.\<close>

lemma writing_inv:
  assumes "sys_inv s" and i: "i < length (writing s)"
    and "\<And>ss. separated (sys_mem s) (slices (writing s ! i) @ ss) \<Longrightarrow> set (map fst (given_out s)) \<subseteq> set ss \<Longrightarrow>
      separated mm' (slices m' @ ss) \<and> (\<forall>r \<in> set ss. contents mm' r = contents (sys_mem s) r)"
  shows "sys_inv (s\<lparr>sys_mem := mm', writing := (writing s)[i := m']\<rparr>)"
proof (rule inv_replace [OF assms(1), where new = "[]"])
  let ?ms = "pool s @ remove_at i (writing s) @ wires s"
  show "mset (all_messages s) = add_mset (writing s ! i) (mset ?ms)"
    using i by (simp add: all_messages_def mset_remove_at)
  show "mset (all_messages (s\<lparr>sys_mem := mm', writing := (writing s)[i := m']\<rparr>)) = add_mset m' (mset ?ms)"
    using i by (simp add: all_messages_def mset_update_at)
qed (use assms in \<open>simp_all add: sys_inv_def\<close>)

lemma wires_inv:
  assumes "sys_inv s" and i: "i < length (wires s)"
    and "\<And>ss. separated (sys_mem s) (slices (wires s ! i) @ ss) \<Longrightarrow>
      separated mm' (slices m' @ new @ ss) \<and> (\<forall>r \<in> set ss. contents mm' r = contents (sys_mem s) r)"
  shows "sys_inv (s\<lparr>sys_mem := mm', wires := (wires s)[i := m'],
    given_out := map (\<lambda>r. (r, contents mm' r)) new @ given_out s\<rparr>)"
proof (rule inv_replace [OF assms(1), where new = new])
  let ?ms = "pool s @ writing s @ remove_at i (wires s)"
  show "mset (all_messages s) = add_mset (wires s ! i) (mset ?ms)"
    using i by (simp add: all_messages_def mset_remove_at)
  show "mset (all_messages (s\<lparr>sys_mem := mm', wires := (wires s)[i := m'],
      given_out := map (\<lambda>r. (r, contents mm' r)) new @ given_out s\<rparr>)) = add_mset m' (mset ?ms)"
    using i by (simp add: all_messages_def mset_update_at)
  fix ss assume "separated (sys_mem s) (slices (wires s ! i) @ ss)"
  from assms(3) [OF this] show "separated (sys_mem (s\<lparr>sys_mem := mm', wires := (wires s)[i := m'],
      given_out := map (\<lambda>r. (r, contents mm' r)) new @ given_out s\<rparr>)) (slices m' @ new @ ss) \<and>
    (\<forall>r \<in> set ss. contents (sys_mem (s\<lparr>sys_mem := mm', wires := (wires s)[i := m'],
      given_out := map (\<lambda>r. (r, contents mm' r)) new @ given_out s\<rparr>)) r = contents (sys_mem s) r)"
    by simp
qed (use assms(1) in \<open>simp_all add: sys_inv_def\<close>)

context buffer_store
begin

lemma fill_inv:
  assumes "sys_inv s" and "i < length (writing s)"
    and "set (payload_slices msg) \<subseteq> fst ` set (given_out s)"
    and "ToWire T A store (sys_mem s) (writing s ! i) msg = (m', mm', err)"
  shows "sys_inv (s\<lparr>sys_mem := mm', writing := (writing s)[i := m']\<rparr>)"
proof (rule writing_inv [OF assms(1,2)])
  fix ss assume sep: "separated (sys_mem s) (slices (writing s ! i) @ ss)" and "set (map fst (given_out s)) \<subseteq> set ss"
  with assms(3) have "apart (sys_mem s) (message_arrays (writing s ! i)) (msg_Args msg)"
    "apart (sys_mem s) (message_arrays (writing s ! i)) (msg_Result msg)"
    by (auto intro!: separated_apart simp: payload_slices_def)
  from ToWire_refines [OF sep this assms(4)]
  show "separated mm' (slices m' @ ss) \<and> (\<forall>r \<in> set ss. contents mm' r = contents (sys_mem s) r)" by simp
qed

lemma decode_inv:
  assumes "sys_inv s" and "i < length (wires s)"
    and "Message_decode_with wn (mem_in store S) (wires s ! i) (sys_mem s, src) = (z', (mm', src'), err)"
  shows "sys_inv (s\<lparr>sys_mem := mm', wires := (wires s)[i := z']\<rparr>)"
  using wires_inv [OF assms(1,2), of mm' z' "[]"] decode_with_mem [OF _ assms(3)]
  by (simp add: tracks_def)

lemma hand_over_inv:
  assumes "sys_inv s" and "i < length (wires s)"
    and "FromWire (sys_mem s) msg (wires s ! i) = (msg', m', mm')"
  shows "sys_inv (s\<lparr>sys_mem := mm', wires := (wires s)[i := m'],
    given_out := map (\<lambda>r. (r, contents mm' r)) (payload_slices msg') @ given_out s\<rparr>)"
  using wires_inv [OF assms(1,2), of mm' m' "payload_slices msg'"] FromWire_refines(1,2) [OF _ assms(3)]
  by (simp add: payload_slices_def)

lemma step_inv: "sys_step T A store S s t \<Longrightarrow> sys_inv s \<Longrightarrow> sys_inv t"
  by (induction rule: sys_step.induct)
    (auto intro: get_inv fill_inv put_inv collect_inv new_codec_inv decode_inv hand_over_inv
      simp: Message_DecodeMsg_with Message_unmarshal_with)

lemma reachable_inv: "sys_reachable T A store S s \<Longrightarrow> sys_inv s"
proof (induction rule: sys_reachable.induct)
  case start
  show ?case by (simp add: sys_inv_def init_system_def live_def all_messages_def separated_def)
next
  case (step s t)
  then show ?case by (blast intro: step_inv)
qed

end

end
