(* ===== verification/Codec.thy ===== *)
theory Codec
  imports Ownership
begin

text \<open>
  What the three codecs have in common, and the contract birpc uses them under. \<open>world\<close> is the
  state of package \<open>mpc\<close> that all codecs of a process share: the store and the pool. The locales
  \<open>message_sender\<close> and \<open>message_receiver\<close> say what one \<open>WriteMessage\<close> and one
  \<open>ReadMessage\<close> do, in terms of the units the medium carries (bytes of a stream, frames of a
  websocket, values published to redis); \<open>message_channel\<close> puts a sender and a receiver that
  agree on the frames together and proves, once for all codecs, that any sequence of messages
  arrives complete, in order and unchanged.
\<close>

section \<open>The shared world\<close>

record world =
  w_mem :: mem
  w_pool :: "slice message list"

definition world_ok :: "slice list \<Rightarrow> world \<Rightarrow> bool" where
  "world_ok ss st \<longleftrightarrow> separated (w_mem st) (concat (map slices (w_pool st)) @ ss)"

text \<open>What a birpc message has to hold after it was read, given the wire message that was sent.\<close>

definition carries :: "mem \<Rightarrow> 'v birpc_message \<Rightarrow> bytes message \<Rightarrow> bool" where
  "carries mm msg am \<longleftrightarrow> msg_ID msg = ID am \<and> msg_Func msg = Func am \<and>
     given mm (msg_Args msg) = Some (Args am) \<and> given mm (msg_Result msg) = Some (Result am) \<and>
     msg_Error msg = map_option (\<lambda>e. \<lparr>err_Msg = Msg e\<rparr>) (Error am)"

definition new_birpc_message :: "'v birpc_message" where
  "new_birpc_message = \<lparr>msg_ID = 0, msg_Func = '''', msg_Args = INil, msg_Result = INil, msg_Error = None\<rparr>"

lemma carries_frame:
  assumes "carries mm msg am" and "\<forall>t \<in> set (payload_slices msg). contents mm' t = contents mm t"
  shows "carries mm' msg am"
  using assms given_frame [of "msg_Args msg" mm' mm] given_frame [of "msg_Result msg" mm' mm]
  by (simp add: carries_def payload_slices_def ball_Un)

lemma get_world:
  assumes ok: "world_ok ss st" and get: "GetMessage pick (w_pool st) = (m, pool')"
  shows "separated (w_mem st) (slices m @ concat (map slices pool') @ ss)"
  using get
proof (cases rule: GetMessage_cases)
  case 1
  with ok show ?thesis by (simp add: world_ok_def new_Message_def slices_def separated_nil)
next
  case (2 i)
  then have "mset (w_pool st) = add_mset m (mset pool')" by (simp add: mset_remove_at)
  then have "mset (concat (map slices (w_pool st)) @ ss) = mset (slices m @ concat (map slices pool') @ ss)"
    by (simp add: mset_slices)
  with ok show ?thesis unfolding world_ok_def by (rule separated_msetD)
qed

lemma put_world:
  assumes "separated mm (slices m @ concat (map slices pool') @ ss)"
  shows "world_ok ss \<lparr>w_mem = mm, w_pool = PutMessage m pool'\<rparr>"
  using separated_keep_message [of mm m] assms by (simp add: world_ok_def PutMessage_eq slices_def)

context buffer_store
begin

text \<open>From \<open>GetMessage\<close> to the end of \<open>ToWire\<close>: how every \<open>WriteMessage\<close> starts.\<close>

lemma to_wire_world:
  assumes ok: "world_ok ss st" and payloads: "set (payload_slices msg) \<subseteq> set ss"
    and get: "GetMessage pick (w_pool st) = (m, pool')"
    and run: "ToWire T A store (w_mem st) m msg = (m', mm', err)"
  shows "separated mm' (slices m' @ concat (map slices pool') @ ss)"
    and "\<forall>t \<in> set ss. contents mm' t = contents (w_mem st) t"
    and "case wire_of T A (w_mem st) msg of Inl e \<Rightarrow> err = Some e | Inr am \<Rightarrow> err = None \<and> deref mm' m' = am"
proof -
  note sep = get_world [OF ok get]
  have "apart (w_mem st) (message_arrays m) (msg_Args msg)" "apart (w_mem st) (message_arrays m) (msg_Result msg)"
    using payloads by (auto intro!: separated_apart [OF sep] simp: payload_slices_def)
  from ToWire_refines [OF sep this run]
  show "separated mm' (slices m' @ concat (map slices pool') @ ss)"
    and "\<forall>t \<in> set ss. contents mm' t = contents (w_mem st) t"
    and "case wire_of T A (w_mem st) msg of Inl e \<Rightarrow> err = Some e | Inr am \<Rightarrow> err = None \<and> deref mm' m' = am"
    by simp_all
qed

end

text \<open>From a decoded wire message to birpc's message: how every \<open>ReadMessage\<close> ends.\<close>

lemma from_wire_carries:
  assumes "separated mm (slices m @ ss)" and "FromWire mm msg m = (msg', m', mm')"
  shows "carries mm' msg' (deref mm m)" and "separated mm' (slices m' @ payload_slices msg' @ ss)"
    and "\<forall>t \<in> set ss. contents mm' t = contents mm t"
  using FromWire_refines [OF assms] by (simp_all add: carries_def payload_slices_def)

section \<open>The contract of a codec\<close>

locale message_sender =
  fixes T :: "('v, 'e) go_types" and A :: "'e msgp_append"
    and write_msg :: "nat option \<Rightarrow> 'wc \<Rightarrow> world \<Rightarrow> 'v birpc_message \<Rightarrow> 'wc \<times> world \<times> 'e goerr option"
    and own :: "'wc \<Rightarrow> slice list"     \<comment> \<open>buffers the codec keeps for itself\<close>
    and ready :: "'wc \<Rightarrow> bool"         \<comment> \<open>no earlier write left part of a message behind\<close>
    and outbox :: "'wc \<Rightarrow> 'u list"     \<comment> \<open>what has been sent\<close>
    and frame :: "bytes message \<Rightarrow> 'u list"
  assumes write_world: "world_ok (own c @ ss) st \<Longrightarrow> set (payload_slices msg) \<subseteq> set ss \<Longrightarrow>
      write_msg pick c st msg = (c', st', err) \<Longrightarrow>
      world_ok (own c' @ ss) st' \<and> (\<forall>t \<in> set ss. contents (w_mem st') t = contents (w_mem st) t)"
    and write_sends: "world_ok (own c @ ss) st \<Longrightarrow> set (payload_slices msg) \<subseteq> set ss \<Longrightarrow> ready c \<Longrightarrow>
      write_msg pick c st msg = (c', st', None) \<Longrightarrow>
      ready c' \<and> (\<exists>am. wire_of T A (w_mem st) msg = Inr am \<and> outbox c' = outbox c @ frame am)"
    and write_refuses: "world_ok (own c @ ss) st \<Longrightarrow> set (payload_slices msg) \<subseteq> set ss \<Longrightarrow>
      wire_of T A (w_mem st) msg = Inl e \<Longrightarrow> write_msg pick c st msg = (c', st', err) \<Longrightarrow> err = Some e \<and> c' = c"

locale message_receiver =
  fixes obj :: "bytes \<Rightarrow> bool"
    and read_msg :: "'rc \<Rightarrow> mem \<Rightarrow> 'v birpc_message \<Rightarrow> ('v birpc_message \<times> 'rc \<times> mem \<times> 'e goerr option) option"
    and held :: "'rc \<Rightarrow> slice list"    \<comment> \<open>the buffers of the wire message it decodes into\<close>
    and connected :: "'rc \<Rightarrow> bool"
    and inbox :: "'rc \<Rightarrow> 'u list"      \<comment> \<open>what is still to be read\<close>
    and frame :: "bytes message \<Rightarrow> 'u list"
  assumes read_delivers: "separated mm (held c @ ss) \<Longrightarrow> connected c \<Longrightarrow> inbox c = frame am @ rest \<Longrightarrow>
      message_ok obj am \<Longrightarrow>
      \<exists>msg' c' mm'. read_msg c mm msg = Some (msg', c', mm', None) \<and> connected c' \<and> inbox c' = rest \<and>
        carries mm' msg' am \<and> separated mm' (held c' @ payload_slices msg' @ ss) \<and>
        (\<forall>t \<in> set ss. contents mm' t = contents mm t)"

section \<open>A channel\<close>

text \<open>Writing a list of messages, until the first error; reading a number of them.\<close>

primrec write_all ::
    "(nat option \<Rightarrow> 'wc \<Rightarrow> world \<Rightarrow> 'v birpc_message \<Rightarrow> 'wc \<times> world \<times> 'e goerr option) \<Rightarrow> nat option
       \<Rightarrow> 'v birpc_message list \<Rightarrow> 'wc \<Rightarrow> world \<Rightarrow> ('wc \<times> world) option" where
  "write_all write_msg pick [] c st = Some (c, st)"
| "write_all write_msg pick (msg # msgs) c st =
     (case write_msg pick c st msg of
        (c, st, None) \<Rightarrow> write_all write_msg pick msgs c st
      | (c, st, Some e) \<Rightarrow> None)"

primrec read_all ::
    "('rc \<Rightarrow> mem \<Rightarrow> 'v birpc_message \<Rightarrow> ('v birpc_message \<times> 'rc \<times> mem \<times> 'e goerr option) option) \<Rightarrow> nat
       \<Rightarrow> 'rc \<Rightarrow> mem \<Rightarrow> ('v birpc_message list \<times> 'rc \<times> mem) option" where
  "read_all read_msg 0 c mm = Some ([], c, mm)"
| "read_all read_msg (Suc n) c mm =
     (case read_msg c mm new_birpc_message of
        Some (msg, c, mm, None) \<Rightarrow>
          (case read_all read_msg n c mm of Some (msgs, c, mm) \<Rightarrow> Some (msg # msgs, c, mm) | None \<Rightarrow> None)
      | _ \<Rightarrow> None)"

lemma wire_of_frame:
  assumes "\<forall>t \<in> set (payload_slices msg). contents mm' t = contents mm t"
  shows "wire_of T A mm' msg = wire_of T A mm msg"
proof -
  have same: "payload_form T A mm' v = payload_form T A mm v"
    if "\<forall>t \<in> set (iface_slices v). contents mm' t = contents mm t" for v
    using that by (cases v) (simp_all add: payload_form_def)
  have "payload_form T A mm' (msg_Args msg) = payload_form T A mm (msg_Args msg)"
    "payload_form T A mm' (msg_Result msg) = payload_form T A mm (msg_Result msg)"
    using assms by (auto intro!: same simp: payload_slices_def)
  then show ?thesis by (simp add: wire_of_def split: sum.split)
qed

context message_sender
begin

lemma write_all_sends:
  "write_all write_msg pick msgs c st = Some (c', st') \<Longrightarrow> world_ok (own c @ ss) st \<Longrightarrow> ready c \<Longrightarrow>
   set (concat (map payload_slices msgs)) \<subseteq> set ss \<Longrightarrow>
   \<exists>ams. map (wire_of T A (w_mem st)) msgs = map Inr ams \<and> outbox c' = outbox c @ concat (map frame ams)"
proof (induction msgs arbitrary: c st)
  case (Cons msg msgs)
  obtain c1 st1 where w: "write_msg pick c st msg = (c1, st1, None)" "write_all write_msg pick msgs c1 st1 = Some (c', st')"
    using Cons.prems(1) by (auto split: prod.splits option.splits)
  have sub: "set (payload_slices msg) \<subseteq> set ss" "set (concat (map payload_slices msgs)) \<subseteq> set ss"
    using Cons.prems(4) by auto
  note w1 = write_world [OF Cons.prems(2) sub(1) w(1)]
  obtain am where am: "ready c1" "wire_of T A (w_mem st) msg = Inr am" "outbox c1 = outbox c @ frame am"
    using write_sends [OF Cons.prems(2) sub(1) Cons.prems(3) w(1)] by blast
  have same: "wire_of T A (w_mem st1) m = wire_of T A (w_mem st) m" if "m \<in> set msgs" for m
    using w1 sub(2) that by (intro wire_of_frame) auto
  obtain ams where "map (wire_of T A (w_mem st1)) msgs = map Inr ams" "outbox c' = outbox c1 @ concat (map frame ams)"
    using Cons.IH [OF w(2) _ am(1) sub(2)] w1 by blast
  moreover have "map (wire_of T A (w_mem st1)) msgs = map (wire_of T A (w_mem st)) msgs"
    using same by simp
  ultimately have "map (wire_of T A (w_mem st)) (msg # msgs) = map Inr (am # ams) \<and>
      outbox c' = outbox c @ concat (map frame (am # ams))" using am by simp
  then show ?case by blast
qed simp

end

context message_receiver
begin

lemma read_all_delivers:
  "separated mm (held c @ ss) \<Longrightarrow> connected c \<Longrightarrow> inbox c = concat (map frame ams) @ rest \<Longrightarrow>
   list_all (message_ok obj) ams \<Longrightarrow>
   \<exists>msgs c' mm'. read_all read_msg (length ams) c mm = Some (msgs, c', mm') \<and> connected c' \<and> inbox c' = rest \<and>
     list_all2 (carries mm') msgs ams \<and> separated mm' (held c' @ concat (map payload_slices msgs) @ ss) \<and>
     (\<forall>t \<in> set ss. contents mm' t = contents mm t)"
proof (induction ams arbitrary: c mm ss)
  case (Cons am ams)
  have "inbox c = frame am @ concat (map frame ams) @ rest" "message_ok obj am" "list_all (message_ok obj) ams"
    using Cons.prems(3,4) by simp_all
  then obtain msg c1 mm1 where r: "read_msg c mm new_birpc_message = Some (msg, c1, mm1, None)" "connected c1"
    "inbox c1 = concat (map frame ams) @ rest" "carries mm1 msg am"
    "separated mm1 (held c1 @ payload_slices msg @ ss)" "\<forall>t \<in> set ss. contents mm1 t = contents mm t"
    using read_delivers [OF Cons.prems(1,2), of am _ new_birpc_message] by blast
  obtain msgs c' mm' where rs: "read_all read_msg (length ams) c1 mm1 = Some (msgs, c', mm')" "connected c'" "inbox c' = rest"
    "list_all2 (carries mm') msgs ams"
    "separated mm' (held c' @ concat (map payload_slices msgs) @ payload_slices msg @ ss)"
    "\<forall>t \<in> set (payload_slices msg @ ss). contents mm' t = contents mm1 t"
    using Cons.IH [OF r(5) r(2,3) \<open>list_all (message_ok obj) ams\<close>] by (elim exE conjE) (rule that)
  have "carries mm' msg am" using r(4) by (rule carries_frame) (use rs(6) in simp)
  moreover have "separated mm' (held c' @ concat (map payload_slices (msg # msgs)) @ ss)"
    by (rule separated_msetD [OF rs(5)]) simp
  moreover have "read_all read_msg (length (am # ams)) c mm = Some (msg # msgs, c', mm')"
    using r(1) rs(1) by simp
  moreover have "\<forall>t \<in> set ss. contents mm' t = contents mm t" using r(6) rs(6) by simp
  moreover have "list_all2 (carries mm') (msg # msgs) (am # ams)" using calculation(1) rs(4) by simp
  ultimately show ?case using rs(2,3) by blast
qed simp

end

locale message_channel =
  message_sender T A write_msg own ready outbox frame + message_receiver obj read_msg held connected inbox frame
  for T :: "('v, 'e) go_types" and A :: "'e msgp_append" and write_msg :: "nat option \<Rightarrow> 'wc \<Rightarrow> world \<Rightarrow> 'v birpc_message \<Rightarrow> 'wc \<times> world \<times> 'e goerr option"
    and own ready and outbox :: "'wc \<Rightarrow> 'u list" and frame obj
    and read_msg :: "'rc \<Rightarrow> mem \<Rightarrow> 'v birpc_message \<Rightarrow> ('v birpc_message \<times> 'rc \<times> mem \<times> 'e goerr option) option"
    and held connected and inbox :: "'rc \<Rightarrow> 'u list"
begin

text \<open>
  Whatever was written without an error is read, in order, by a reader that finds it on its
  side of the medium; the payloads read first are intact when the last message has been read.
\<close>

lemma fifo:
  assumes "write_all write_msg pick msgs c st = Some (c', st')" and "world_ok (own c @ ss) st" and "ready c"
    and "set (concat (map payload_slices msgs)) \<subseteq> set ss" and "outbox c = []"
    and "\<forall>msg \<in> set msgs. \<forall>am. wire_of T A (w_mem st) msg = Inr am \<longrightarrow> message_ok obj am"
    and "separated mm (held r @ rs)" and "connected r" and "inbox r = outbox c' @ rest"
  shows "\<exists>ams msgs' r' mm'. map (wire_of T A (w_mem st)) msgs = map Inr ams \<and>
    read_all read_msg (length msgs) r mm = Some (msgs', r', mm') \<and> inbox r' = rest \<and>
    list_all2 (carries mm') msgs' ams \<and> (\<forall>t \<in> set rs. contents mm' t = contents mm t)"
proof -
  obtain ams where ams: "map (wire_of T A (w_mem st)) msgs = map Inr ams" "outbox c' = concat (map frame ams)"
    using write_all_sends [OF assms(1-4)] assms(5) by auto
  have len: "length ams = length msgs" using ams(1) map_eq_imp_length_eq by metis
  have "message_ok obj (ams ! i)" if "i < length ams" for i
  proof -
    have "wire_of T A (w_mem st) (msgs ! i) = Inr (ams ! i)"
      using ams(1) that len by (metis nth_map)
    with assms(6) that len show ?thesis by auto
  qed
  then have "list_all (message_ok obj) ams" by (simp add: list_all_length)
  moreover have "inbox r = concat (map frame ams) @ rest" using assms(9) ams(2) by simp
  ultimately show ?thesis using read_all_delivers [OF assms(7,8)] ams(1) unfolding len [symmetric] by blast
qed

end

section \<open>Typed payloads\<close>

text \<open>
  A payload value travels when its \<open>MarshalMsg\<close> gives one object other than nil and the
  receiver \<open>z\<close> unmarshals that object to \<open>v\<close>. An absent payload travels too: the receiver is
  then left as it is.
\<close>

fun travels :: "('v, 'e) go_types \<Rightarrow> (bytes \<Rightarrow> bool) \<Rightarrow> 'v iface \<Rightarrow> 'v \<Rightarrow> 'v \<Rightarrow> bool" where
  "travels T obj INil z v \<longleftrightarrow> v = z \<and> unmarshaler T z \<noteq> None"
| "travels T obj (IVal x) z v \<longleftrightarrow>
     (\<exists>form u left. marshaler T x = Some (form, None) \<and> obj form \<and> form \<noteq> [nil_byte] \<and> form \<noteq> [] \<and>
        unmarshaler T z = Some u \<and> u form = (v, left, None))"
| "travels T obj (IRaw s) z v \<longleftrightarrow> False"

definition message_travels ::
    "('v, 'e) go_types \<Rightarrow> (bytes \<Rightarrow> bool) \<Rightarrow> 'v birpc_message \<Rightarrow> 'v \<Rightarrow> 'v \<Rightarrow> 'v \<Rightarrow> 'v \<Rightarrow> bool" where
  "message_travels T obj msg za va zr vr \<longleftrightarrow> str_ok (msg_Func msg) \<and>
     travels T obj (msg_Args msg) za va \<and> travels T obj (msg_Result msg) zr vr \<and>
     (\<forall>e. msg_Error msg = Some e \<longrightarrow> str_ok (err_Msg e))"

lemma travels_form:
  assumes "travels T obj x z v"
  obtains form where "payload_form T A mm x = Inr form" and "raw_ok obj form"
    and "\<And>mm' y. given mm' y = Some form \<Longrightarrow> Unmarshal T mm' y z = (v, None)"
proof (cases x)
  case INil
  have "Unmarshal T mm' y z = (v, None)" if "given mm' y = Some []" for mm' and y :: "'a iface"
    using assms INil that by (cases y) (auto simp: Unmarshal_def split: if_splits)
  with INil that [of "[]"] show thesis by (simp add: payload_form_def)
next
  case (IVal xv)
  then obtain form u left where f: "marshaler T xv = Some (form, None)" "obj form" "form \<noteq> [nil_byte]" "form \<noteq> []"
    "unmarshaler T z = Some u" "u form = (v, left, None)" using assms by auto
  have "Unmarshal T mm' y z = (v, None)" if "given mm' y = Some form" for mm' and y :: "'a iface"
  proof (cases y)
    case (IRaw s)
    with that f(4) have "contents mm' s = form" "go_len s \<noteq> 0" by (auto split: if_splits) (cases s; simp)
    with IRaw f(5,6) show ?thesis by (simp add: Unmarshal_def)
  qed (use that f(4) in auto)
  with f(1-4) IVal that [of form] show thesis by (simp add: payload_form_def raw_ok_def)
next
  case (IRaw s)
  with assms show thesis by simp
qed

lemma birpc_error_there_and_back [simp]: "map_option (\<lambda>e. \<lparr>err_Msg = err_Msg e\<rparr>) err = err" for err :: "birpc_error option"
  by (cases err) simp_all

lemma message_travels_wire:
  assumes "message_travels T obj msg za va zr vr"
  obtains am where "wire_of T A mm msg = Inr am" and "message_ok obj am"
    and "\<And>mm' msg'. carries mm' msg' am \<Longrightarrow> msg_ID msg' = msg_ID msg \<and> msg_Func msg' = msg_Func msg \<and>
      msg_Error msg' = msg_Error msg \<and> Unmarshal T mm' (msg_Args msg') za = (va, None) \<and>
      Unmarshal T mm' (msg_Result msg') zr = (vr, None)"
proof -
  have t: "travels T obj (msg_Args msg) za va" "travels T obj (msg_Result msg) zr vr"
    using assms by (simp_all add: message_travels_def)
  obtain fa where fa: "payload_form T A mm (msg_Args msg) = Inr fa" "raw_ok obj fa"
    "\<And>mm' y. given mm' y = Some fa \<Longrightarrow> Unmarshal T mm' y za = (va, None)"
    by (rule travels_form [OF t(1), of A mm]) (blast intro: that)
  obtain fr where fr: "payload_form T A mm (msg_Result msg) = Inr fr" "raw_ok obj fr"
    "\<And>mm' y. given mm' y = Some fr \<Longrightarrow> Unmarshal T mm' y zr = (vr, None)"
    by (rule travels_form [OF t(2), of A mm]) (blast intro: that)
  show thesis
    by (rule that [of "\<lparr>ID = msg_ID msg, Func = msg_Func msg, Args = fa, Result = fr,
          Error = map_option (\<lambda>e. \<lparr>Msg = err_Msg e\<rparr>) (msg_Error msg)\<rparr>"])
      (use assms fa fr in \<open>auto simp: wire_of_def message_ok_def message_travels_def carries_def
        option.map_comp comp_def\<close>)
qed

context message_channel
begin

text \<open>One message, from the value its sender passed in to the value its receiver unmarshals.\<close>

lemma travel:
  assumes "message_travels T obj msg za va zr vr"
    and "write_msg pick c st msg = (c', st', None)" and "world_ok (own c) st" and "ready c"
    and "outbox c' = outbox c @ us"
    and "separated mm (held r @ rs)" and "connected r" and "inbox r = us @ rest"
  shows "\<exists>msg' r' mm'. read_msg r mm old = Some (msg', r', mm', None) \<and> inbox r' = rest \<and>
    msg_ID msg' = msg_ID msg \<and> msg_Func msg' = msg_Func msg \<and> msg_Error msg' = msg_Error msg \<and>
    Unmarshal T mm' (msg_Args msg') za = (va, None) \<and> Unmarshal T mm' (msg_Result msg') zr = (vr, None)"
proof -
  have "set (payload_slices msg) \<subseteq> set []"
    using assms(1) by (cases "msg_Args msg"; cases "msg_Result msg") (simp_all add: message_travels_def payload_slices_def)
  moreover have "world_ok (own c @ []) st" using assms(3) by simp
  ultimately obtain am' where am': "wire_of T A (w_mem st) msg = Inr am'" "outbox c' = outbox c @ frame am'"
    using write_sends assms(2,4) by blast
  obtain am where am: "wire_of T A (w_mem st) msg = Inr am" "message_ok obj am"
    "\<And>mm' msg'. carries mm' msg' am \<Longrightarrow> msg_ID msg' = msg_ID msg \<and> msg_Func msg' = msg_Func msg \<and>
      msg_Error msg' = msg_Error msg \<and> Unmarshal T mm' (msg_Args msg') za = (va, None) \<and>
      Unmarshal T mm' (msg_Result msg') zr = (vr, None)"
    using message_travels_wire [OF assms(1), of A "w_mem st"] by metis
  with am' assms(5,8) have "inbox r = frame am @ rest" by simp
  from read_delivers [OF assms(6,7) this am(2), of old] am(3) show ?thesis by blast
qed

end

section \<open>Filling arguments\<close>

text \<open>
  The arguments birpc passes to a method, by dynamic type: a pointer of the codec's connection
  type, possibly nil, or anything else. The two codecs with a \<open>FillArgs\<close> share its loop.
\<close>

datatype ('p, 'x) rpc_arg = Pointer "'p option" | Other 'x

function fill_args :: "'p \<Rightarrow> nat \<Rightarrow> ('p, 'x) rpc_arg list \<Rightarrow> ('p, 'x) rpc_arg list" where
  "fill_args p i arglist =
     (if i < length arglist then
        fill_args p (i + 1)
          (case arglist ! i of Pointer _ \<Rightarrow> arglist[i := Pointer (Some p)] | Other x \<Rightarrow> arglist)
      else arglist)"
  by auto
termination by (relation "measure (\<lambda>(p, i, arglist). length arglist - i)") (auto split: rpc_arg.split)

declare fill_args.simps [simp del]

fun filled :: "'p \<Rightarrow> ('p, 'x) rpc_arg \<Rightarrow> ('p, 'x) rpc_arg" where
  "filled p (Pointer _) = Pointer (Some p)"
| "filled p (Other x) = Other x"

lemma fill_args_map: "i \<le> length arglist \<Longrightarrow> fill_args p i arglist = take i arglist @ map (filled p) (drop i arglist)"
proof (induction p i arglist rule: fill_args.induct)
  case (1 p i arglist)
  show ?case
  proof (cases "i < length arglist")
    case True
    let ?l = "case arglist ! i of Pointer _ \<Rightarrow> arglist[i := Pointer (Some p)] | Other x \<Rightarrow> arglist"
    have l: "?l = arglist[i := filled p (arglist ! i)]"
      using True list_update_id [of arglist i] by (cases "arglist ! i") simp_all
    have "take (i + 1) ?l = take i arglist @ [filled p (arglist ! i)]" "drop (i + 1) ?l = drop (i + 1) arglist"
      using True by (simp_all add: l take_Suc_conv_app_nth)
    moreover have "drop i arglist = arglist ! i # drop (i + 1) arglist" using True by (simp add: Cons_nth_drop_Suc)
    ultimately show ?thesis using 1 True by (subst fill_args.simps) (simp add: l)
  next
    case False
    with 1(2) show ?thesis by (subst fill_args.simps) simp
  qed
qed

end
