(* ===== verification/Testmsg.thy ===== *)
theory Testmsg
  imports Map_Codec Codec Msgpack_Ref
begin

text \<open>
  \<open>internal/testmsg\<close>: the payload types \<open>Args\<close> and \<open>Result\<close> with their generated codecs
  (\<open>testmsg_gen.go\<close>), and the services \<open>Counter\<close> and \<open>Arith\<close> the repository's codecs are
  exercised with (\<open>testmsg.go\<close>). Both types interpret the interface \<open>msgp_type\<close>.
\<close>

section \<open>Types\<close>

record test_args =
  args_A :: i64
  args_B :: i64
  args_S :: string

record test_result =
  res_C :: i64
  res_S :: string

section \<open>The codec of Args\<close>

definition Args_Msgsize :: "'e msgp_append \<Rightarrow> test_args \<Rightarrow> nat" where
  "Args_Msgsize A z = 1 + 2 + Int64Size A + 2 + Int64Size A + 2 + StringPrefixSize A + length (args_S z)"

definition Args_MarshalMsg :: "'e msgp_append \<Rightarrow> test_args \<Rightarrow> bytes \<Rightarrow> bytes \<times> 'e goerr option" where
  "Args_MarshalMsg A z b =
     (let ob = Require A b (Args_Msgsize A z);
          ob = ob @ [0x83, 0xa1, 0x61];
          ob = AppendInt64 A ob (args_A z);
          ob = ob @ [0xa1, 0x62];
          ob = AppendInt64 A ob (args_B z);
          ob = ob @ [0xa1, 0x73];
          ob = AppendString A ob (args_S z)
      in (ob, None))"

definition Args_EncodeMsg :: "('w, 'e) msgp_out \<Rightarrow> test_args \<Rightarrow> 'w \<Rightarrow> 'w \<times> 'e goerr option" where
  "Args_EncodeMsg W z en =
     (let (en, err) = Append W en [0x83, 0xa1, 0x61] in
      if err \<noteq> None then (en, err) else
      let (en, err) = WriteInt64 W en (args_A z) in
      if err \<noteq> None then (en, wrap err [''A'']) else
      let (en, err) = Append W en [0xa1, 0x62] in
      if err \<noteq> None then (en, err) else
      let (en, err) = WriteInt64 W en (args_B z) in
      if err \<noteq> None then (en, wrap err [''B'']) else
      let (en, err) = Append W en [0xa1, 0x73] in
      if err \<noteq> None then (en, err) else
      let (en, err) = WriteString W en (args_S z) in
      if err \<noteq> None then (en, wrap err [''S'']) else
      (en, None))"

definition Args_switch ::
    "('s, 'raw, 'e) msgp_in \<Rightarrow> string \<Rightarrow> test_args \<Rightarrow> 's \<Rightarrow> test_args \<times> 's \<times> 'e goerr option" where
  "Args_switch S field z s =
     (if field = ''a'' then read_field (ReadInt64 S) (\<lambda>v z. z\<lparr>args_A := v\<rparr>) ''A'' z s
      else if field = ''b'' then read_field (ReadInt64 S) (\<lambda>v z. z\<lparr>args_B := v\<rparr>) ''B'' z s
      else if field = ''s'' then read_field (ReadString S) (\<lambda>v z. z\<lparr>args_S := v\<rparr>) ''S'' z s
      else skip_field S z s)"

definition Args_DecodeMsg ::
    "('s, 'raw, 'e) msgp_in \<Rightarrow> test_args \<Rightarrow> 's \<Rightarrow> test_args \<times> 's \<times> 'e goerr option" where
  "Args_DecodeMsg S z dc = decode_map S (Args_switch S) z dc"

definition Args_UnmarshalMsg ::
    "(bytes, 'raw, 'e) msgp_in \<Rightarrow> test_args \<Rightarrow> bytes \<Rightarrow> test_args \<times> bytes \<times> 'e goerr option" where
  "Args_UnmarshalMsg S z bts = unmarshal_map S (Args_switch S) z bts"

text \<open>The encoding as a list of map entries.\<close>

definition Args_entries :: "'e msgp_append \<Rightarrow> test_args \<Rightarrow> test_args entry list" where
  "Args_entries A v = [(''a'', AppendInt64 A [] (args_A v), \<lambda>z. z\<lparr>args_A := args_A v\<rparr>),
     (''b'', AppendInt64 A [] (args_B v), \<lambda>z. z\<lparr>args_B := args_B v\<rparr>),
     (''s'', AppendString A [] (args_S v), \<lambda>z. z\<lparr>args_S := args_S v\<rparr>)]"

section \<open>The codec of Result\<close>

definition Result_Msgsize :: "'e msgp_append \<Rightarrow> test_result \<Rightarrow> nat" where
  "Result_Msgsize A z = 1 + 2 + Int64Size A + 2 + StringPrefixSize A + length (res_S z)"

definition Result_MarshalMsg :: "'e msgp_append \<Rightarrow> test_result \<Rightarrow> bytes \<Rightarrow> bytes \<times> 'e goerr option" where
  "Result_MarshalMsg A z b =
     (let ob = Require A b (Result_Msgsize A z);
          ob = ob @ [0x82, 0xa1, 0x63];
          ob = AppendInt64 A ob (res_C z);
          ob = ob @ [0xa1, 0x73];
          ob = AppendString A ob (res_S z)
      in (ob, None))"

definition Result_EncodeMsg :: "('w, 'e) msgp_out \<Rightarrow> test_result \<Rightarrow> 'w \<Rightarrow> 'w \<times> 'e goerr option" where
  "Result_EncodeMsg W z en =
     (let (en, err) = Append W en [0x82, 0xa1, 0x63] in
      if err \<noteq> None then (en, err) else
      let (en, err) = WriteInt64 W en (res_C z) in
      if err \<noteq> None then (en, wrap err [''C'']) else
      let (en, err) = Append W en [0xa1, 0x73] in
      if err \<noteq> None then (en, err) else
      let (en, err) = WriteString W en (res_S z) in
      if err \<noteq> None then (en, wrap err [''S'']) else
      (en, None))"

definition Result_switch ::
    "('s, 'raw, 'e) msgp_in \<Rightarrow> string \<Rightarrow> test_result \<Rightarrow> 's \<Rightarrow> test_result \<times> 's \<times> 'e goerr option" where
  "Result_switch S field z s =
     (if field = ''c'' then read_field (ReadInt64 S) (\<lambda>v z. z\<lparr>res_C := v\<rparr>) ''C'' z s
      else if field = ''s'' then read_field (ReadString S) (\<lambda>v z. z\<lparr>res_S := v\<rparr>) ''S'' z s
      else skip_field S z s)"

definition Result_DecodeMsg ::
    "('s, 'raw, 'e) msgp_in \<Rightarrow> test_result \<Rightarrow> 's \<Rightarrow> test_result \<times> 's \<times> 'e goerr option" where
  "Result_DecodeMsg S z dc = decode_map S (Result_switch S) z dc"

definition Result_UnmarshalMsg ::
    "(bytes, 'raw, 'e) msgp_in \<Rightarrow> test_result \<Rightarrow> bytes \<Rightarrow> test_result \<times> bytes \<times> 'e goerr option" where
  "Result_UnmarshalMsg S z bts = unmarshal_map S (Result_switch S) z bts"

text \<open>The encoding as a list of map entries.\<close>

definition Result_entries :: "'e msgp_append \<Rightarrow> test_result \<Rightarrow> test_result entry list" where
  "Result_entries A v = [(''c'', AppendInt64 A [] (res_C v), \<lambda>z. z\<lparr>res_C := res_C v\<rparr>),
     (''s'', AppendString A [] (res_S v), \<lambda>z. z\<lparr>res_S := res_S v\<rparr>)]"

section \<open>The codecs keep the contract\<close>

definition Args_ok :: "test_args \<Rightarrow> bool" where
  "Args_ok v \<longleftrightarrow> str_ok (args_S v)"

definition Result_ok :: "test_result \<Rightarrow> bool" where
  "Result_ok v \<longleftrightarrow> str_ok (res_S v)"

lemma Args_switch_keys:
  "Args_switch S ''a'' z = read_field (ReadInt64 S) (\<lambda>v z. z\<lparr>args_A := v\<rparr>) ''A'' z"
  "Args_switch S ''b'' z = read_field (ReadInt64 S) (\<lambda>v z. z\<lparr>args_B := v\<rparr>) ''B'' z"
  "Args_switch S ''s'' z = read_field (ReadString S) (\<lambda>v z. z\<lparr>args_S := v\<rparr>) ''S'' z"
  "k \<notin> {''a'', ''b'', ''s''} \<Longrightarrow> Args_switch S k z = skip_field S z"
  by (auto simp: Args_switch_def)

lemma Result_switch_keys:
  "Result_switch S ''c'' z = read_field (ReadInt64 S) (\<lambda>v z. z\<lparr>res_C := v\<rparr>) ''C'' z"
  "Result_switch S ''s'' z = read_field (ReadString S) (\<lambda>v z. z\<lparr>res_S := v\<rparr>) ''S'' z"
  "k \<notin> {''c'', ''s''} \<Longrightarrow> Result_switch S k z = skip_field S z"
  by (auto simp: Result_switch_def)

sublocale msgp_encoding \<subseteq> args: map_codec A obj Args_ok "Args_entries A" "Args_MarshalMsg A" "Args_Msgsize A"
proof
  show "length (map_form (Args_entries A v)) \<le> Args_Msgsize A v" if "Args_ok v" for v
    using that size_int64 [of "args_A v"] size_int64 [of "args_B v"] size_string [of "args_S v"]
    by (simp add: Args_ok_def Args_entries_def wire_simps Args_Msgsize_def)
qed (simp_all add: Args_ok_def Args_entries_def Args_MarshalMsg_def wire_simps require obj_int64 obj_string)

sublocale msgp_encoding \<subseteq> res: map_codec A obj Result_ok "Result_entries A" "Result_MarshalMsg A" "Result_Msgsize A"
proof
  show "length (map_form (Result_entries A v)) \<le> Result_Msgsize A v" if "Result_ok v" for v
    using that size_int64 [of "res_C v"] size_string [of "res_S v"]
    by (simp add: Result_ok_def Result_entries_def wire_simps Result_Msgsize_def)
qed (simp_all add: Result_ok_def Result_entries_def Result_MarshalMsg_def wire_simps require obj_int64 obj_string)

sublocale msgp_decoding \<subseteq> args: map_decoder A obj Args_ok "Args_entries A" "Args_MarshalMsg A" "Args_Msgsize A"
    S view "Args_switch S"
  by unfold_locales
    (auto simp: Args_ok_def Args_entries_def entry_ok_def Args_switch_keys intro: read_field_reads read_int64 read_string)

sublocale msgp_decoding \<subseteq> res: map_decoder A obj Result_ok "Result_entries A" "Result_MarshalMsg A" "Result_Msgsize A"
    S view "Result_switch S"
  by unfold_locales
    (auto simp: Result_ok_def Result_entries_def entry_ok_def Result_switch_keys intro: read_field_reads read_int64 read_string)

context msgp_encoding
begin

lemmas args_codec = args.map_codec_axioms
lemmas result_codec = res.map_codec_axioms

end

context msgp_decoding
begin

lemmas args_decoder = args.map_decoder_axioms
lemmas result_decoder = res.map_decoder_axioms

end

lemma Args_type: "msgp_decoding A obj S (\<lambda>s. s) \<Longrightarrow> msgp_type obj Args_ok (Args_MarshalMsg A) (Args_UnmarshalMsg S)"
  by (rule msgp_type_of_decoder [OF msgp_decoding.args_decoder], assumption) (simp add: fun_eq_iff Args_UnmarshalMsg_def)

lemma Result_type: "msgp_decoding A obj S (\<lambda>s. s) \<Longrightarrow> msgp_type obj Result_ok (Result_MarshalMsg A) (Result_UnmarshalMsg S)"
  by (rule msgp_type_of_decoder [OF msgp_decoding.result_decoder], assumption) (simp add: fun_eq_iff Result_UnmarshalMsg_def)

interpretation ref_args: msgp_type mp_obj Args_ok "Args_MarshalMsg ref_append" "Args_UnmarshalMsg ref_in"
  by (rule Args_type [OF ref.msgp_decoding_axioms])

interpretation ref_result: msgp_type mp_obj Result_ok "Result_MarshalMsg ref_append" "Result_UnmarshalMsg ref_in"
  by (rule Result_type [OF ref.msgp_decoding_axioms])

context msgp_writing
begin

lemma Args_EncodeMsg_writes: "writes out (Args_EncodeMsg W v) (map_form (Args_entries A v))"
  unfolding writes_def Args_EncodeMsg_def Let_def
  by (auto dest!: write_dests simp: Args_entries_def wire_simps split: prod.splits if_splits)

lemma Result_EncodeMsg_writes: "writes out (Result_EncodeMsg W v) (map_form (Result_entries A v))"
  unfolding writes_def Result_EncodeMsg_def Let_def
  by (auto dest!: write_dests simp: Result_entries_def wire_simps split: prod.splits if_splits)

end

section \<open>Fields in any order\<close>

text \<open>
  What a peer may send as \<open>Args\<close>: the encoded fields of a value \<open>v\<close>, in any order, any of
  them missing or repeated, and any other key with any object. \<open>Args_carries\<close> is the condition
  on one pair, \<open>Args_merge\<close> the outcome: the fields that came are those of \<open>v\<close>, the others are
  what the receiver held.
\<close>

definition Args_carries :: "'e msgp_append \<Rightarrow> (bytes \<Rightarrow> bool) \<Rightarrow> test_args \<Rightarrow> string \<times> bytes \<Rightarrow> bool" where
  "Args_carries A obj v = (\<lambda>(k, w).
     if k = ''a'' then w = AppendInt64 A [] (args_A v)
     else if k = ''b'' then w = AppendInt64 A [] (args_B v)
     else if k = ''s'' then w = AppendString A [] (args_S v)
     else length k < 32 \<and> obj w)"

definition Args_merge :: "string set \<Rightarrow> test_args \<Rightarrow> test_args \<Rightarrow> test_args" where
  "Args_merge ks v z =
     \<lparr>args_A = if ''a'' \<in> ks then args_A v else args_A z,
      args_B = if ''b'' \<in> ks then args_B v else args_B z,
      args_S = if ''s'' \<in> ks then args_S v else args_S z\<rparr>"

lemma Args_merge_simps:
  "Args_merge {} v z = z"
  "Args_merge ks v (Args_merge {k} v z) = Args_merge (insert k ks) v z"
  by (simp_all add: Args_merge_def)

lemma apply_merge: "apply_entries (map (\<lambda>(k, w). (k, w, Args_merge {k} v)) ps) z = Args_merge (fst ` set ps) v z"
  by (induction ps arbitrary: z) (auto simp: Args_merge_simps)

context msgp_decoding
begin

lemma Args_carries_entry:
  assumes "Args_carries A obj v (k, w)" and "str_ok (args_S v)"
  shows "entry_ok view (Args_switch S) (k, w, Args_merge {k} v)"
proof (cases "k \<in> {''a'', ''b'', ''s''}")
  case True
  with assms show ?thesis
    by (auto simp: entry_ok_def Args_carries_def Args_switch_keys Args_merge_def
        intro!: read_field_reads read_int64 read_string)
next
  case False
  then have "Args_merge {k} v z = z" for z by (auto simp: Args_merge_def)
  with False assms show ?thesis
    by (auto simp: entry_ok_def Args_carries_def Args_switch_keys intro: skip_field_reads split: if_splits)
qed

lemma Args_any_order:
  assumes "str_ok (args_S v)" and "length ps < 16" and "list_all (Args_carries A obj v) ps"
  shows "reads view (Args_DecodeMsg S z) (map_form (map (\<lambda>(k, w). (k, w, Args_merge {k} v)) ps))
    (Args_merge (fst ` set ps) v z)"
proof -
  have "list_all (entry_ok view (Args_switch S)) (map (\<lambda>(k, w). (k, w, Args_merge {k} v)) ps)"
    using assms(1,3) Args_carries_entry by (induction ps) auto
  from decode_map_reads [OF _ this, of z] assms(2) show ?thesis
    by (simp add: apply_merge Args_DecodeMsg_def [abs_def])
qed

end

section \<open>The types as payloads\<close>

text \<open>
  The values the tests pass as arguments and replies: pointers to \<open>Args\<close> and \<open>Result\<close>, which
  have all methods, and \<open>Plain\<close>, which has none.
\<close>

record test_plain =
  Whatever :: i64

datatype test_value = VArgs test_args | VResult test_result | VPlain test_plain

definition test_types ::
    "'e msgp_append \<Rightarrow> (bytes, bytes, 'e) msgp_in \<Rightarrow> (test_value, 'e) go_types" where
  "test_types A S = \<lparr>
     marshaler = (\<lambda>v. case v of
         VArgs a \<Rightarrow> Some (Args_MarshalMsg A a [])
       | VResult r \<Rightarrow> Some (Result_MarshalMsg A r [])
       | VPlain p \<Rightarrow> None),
     unmarshaler = (\<lambda>v. case v of
         VArgs a \<Rightarrow> Some (\<lambda>b. case Args_UnmarshalMsg S a b of (a, left, err) \<Rightarrow> (VArgs a, left, err))
       | VResult r \<Rightarrow> Some (\<lambda>b. case Result_UnmarshalMsg S r b of (r, left, err) \<Rightarrow> (VResult r, left, err))
       | VPlain p \<Rightarrow> None),
     type_name = (\<lambda>v. case v of
         VArgs a \<Rightarrow> ''*testmsg.Args'' | VResult r \<Rightarrow> ''*testmsg.Result'' | VPlain p \<Rightarrow> ''*testmsg.Plain'')\<rparr>"

lemma test_types_travel:
  assumes "msgp_decoding A obj S (\<lambda>s. s)"
  shows "Args_ok a \<Longrightarrow> travels (test_types A S) obj (IVal (VArgs a)) (VArgs a') (VArgs a)"
    and "Result_ok r \<Longrightarrow> travels (test_types A S) obj (IVal (VResult r)) (VResult r') (VResult r)"
    and "travels (test_types A S) obj INil (VArgs a') (VArgs a')"
    and "travels (test_types A S) obj INil (VResult r') (VResult r')"
proof -
  show "travels (test_types A S) obj (IVal (VArgs a)) (VArgs a') (VArgs a)" if "Args_ok a"
    using msgp_type.roundtrip [OF Args_type [OF assms] that, of a' "[]"] msgp_type.payload [OF Args_type [OF assms] that]
    by (auto simp: test_types_def prod_eq_iff case_prod_beta)
  show "travels (test_types A S) obj (IVal (VResult r)) (VResult r') (VResult r)" if "Result_ok r"
    using msgp_type.roundtrip [OF Result_type [OF assms] that, of r' "[]"] msgp_type.payload [OF Result_type [OF assms] that]
    by (auto simp: test_types_def prod_eq_iff case_prod_beta)
qed (simp_all add: test_types_def)

end
