(* ===== verification/Samples.thy ===== *)
theory Samples
  imports Testmsg
begin

text \<open>
  Concrete values the examples of the codec theories share: the test types on the reference
  format, a call and a reply, an empty world, and an allocator that never grows more than asked.
\<close>

abbreviation no_spare :: "nat \<Rightarrow> nat \<Rightarrow> nat" where
  "no_spare c need \<equiv> need"

abbreviation ref_types :: "(test_value, ref_error) go_types" where
  "ref_types \<equiv> test_types ref_append ref_in"

abbreviation sample_args :: test_args where
  "sample_args \<equiv> \<lparr>args_A = 20, args_B = - 3, args_S = ''hi''\<rparr>"

abbreviation zero_args :: test_args where
  "zero_args \<equiv> \<lparr>args_A = 0, args_B = 0, args_S = ''''\<rparr>"

abbreviation zero_result :: test_result where
  "zero_result \<equiv> \<lparr>res_C = 0, res_S = ''''\<rparr>"

abbreviation sample_call :: "test_value birpc_message" where
  "sample_call \<equiv> \<lparr>msg_ID = 7, msg_Func = ''Arith.Add'', msg_Args = IVal (VArgs sample_args),
     msg_Result = INil, msg_Error = None\<rparr>"

abbreviation sample_failure :: "test_value birpc_message" where
  "sample_failure \<equiv> \<lparr>msg_ID = 8, msg_Func = '''', msg_Args = INil, msg_Result = INil,
     msg_Error = Some \<lparr>err_Msg = ''boom''\<rparr>\<rparr>"

abbreviation plain_call :: "test_value birpc_message" where
  "plain_call \<equiv> \<lparr>msg_ID = 9, msg_Func = ''Arith.Add'', msg_Args = IVal (VPlain \<lparr>Whatever = 1\<rparr>),
     msg_Result = INil, msg_Error = None\<rparr>"

abbreviation empty_world :: world where
  "empty_world \<equiv> \<lparr>w_mem = [], w_pool = []\<rparr>"

lemma empty_world_ok: "world_ok [] empty_world"
  by (simp add: world_ok_def separated_def)

lemma sample_call_travels:
  "message_travels ref_types mp_obj sample_call (VArgs zero_args) (VArgs sample_args)
     (VArgs zero_args) (VArgs zero_args)"
  unfolding message_travels_def
  using test_types_travel(1) [OF ref.msgp_decoding_axioms, of sample_args zero_args]
    test_types_travel(3) [OF ref.msgp_decoding_axioms, of zero_args]
  by (simp add: Args_ok_def str_ok_def del: travels.simps)

lemma sample_failure_travels:
  "message_travels ref_types mp_obj sample_failure (VArgs zero_args) (VArgs zero_args)
     (VArgs zero_args) (VArgs zero_args)"
  unfolding message_travels_def
  using test_types_travel(3) [OF ref.msgp_decoding_axioms, of zero_args]
  by (simp add: str_ok_def del: travels.simps)

lemma samples_ok:
  assumes "msg = sample_call \<or> msg = sample_failure" and "wire_of ref_types ref_append mm msg = Inr am"
  shows "message_ok mp_obj am"
  using assms(1)
proof
  assume "msg = sample_call"
  with assms(2) show ?thesis by (metis message_travels_wire [OF sample_call_travels] sum.inject(2))
next
  assume "msg = sample_failure"
  with assms(2) show ?thesis by (metis message_travels_wire [OF sample_failure_travels] sum.inject(2))
qed

text \<open>Rules that evaluate a write on the reference instance.\<close>

lemmas write_eval = GetMessage_def new_Message_def ToWire_def marshal_def test_types_def
  Args_MarshalMsg_def append_store_Nil append_store_Slice Message_EncodeMsg_def ref_out_def ref_put_def
  ref_flush_def PutMessage_def deref_def keep_def maxKeptBuffer_def not_marshaler_def Let_def ref_eval

end
