(* ===== verification/Mpc_Props.thy ===== *)
theory Mpc_Props
  imports Mem_Decode Samples
begin

text \<open>
  Properties of the conversion in \<open>mpc/mpc.go\<close>, on slices of the store, with examples that
  reuse a wire message that still holds an earlier one.
\<close>

abbreviation used_message :: "slice message" where
  "used_message \<equiv> \<lparr>ID = 99, Func = ''old'', Args = Slice 0 2 3, Result = Slice 1 1 1, Error = Some \<lparr>Msg = ''old''\<rparr>\<rparr>"

abbreviation used_mem :: mem where
  "used_mem \<equiv> [[1, 2, 3], [9], [0xc3]]"

lemma used_separated: "separated used_mem (slices used_message @ [Slice 2 1 1])"
  by (simp add: separated_def slices_def)

text \<open>
  C15. \<open>ToWire\<close> is a function of birpc's message alone: whatever the wire message held before, on
  success it holds exactly the identifier, function, marshaled payloads and error of the message,
  and otherwise the error names the payload that could not be marshaled. It may grow or reuse the
  two buffers it was given; no other live buffer is touched or shared with them.
\<close>

theorem to_wire_functional:
  assumes "buffer_store store" and "separated mm (slices m @ ss)" and "set (payload_slices msg) \<subseteq> set ss"
    and "ToWire T A store mm m msg = (m', mm', err)"
  shows "(case wire_of T A mm msg of Inl e \<Rightarrow> err = Some e | Inr am \<Rightarrow> err = None \<and> deref mm' m' = am) \<and>
    separated mm' (slices m' @ ss) \<and> (\<forall>t \<in> set ss. contents mm' t = contents mm t)"
proof -
  have "apart mm (message_arrays m) (msg_Args msg)" "apart mm (message_arrays m) (msg_Result msg)"
    using assms(3) by (auto intro!: separated_apart [OF assms(2)] simp: payload_slices_def)
  from buffer_store.ToWire_refines [OF assms(1,2) this assms(4)] show ?thesis by blast
qed

abbreviation relay :: "test_value birpc_message" where
  "relay \<equiv> \<lparr>msg_ID = 5, msg_Func = ''f'', msg_Args = IRaw (Slice 2 1 1), msg_Result = INil, msg_Error = None\<rparr>"

lemma relay_filled:
  "ToWire ref_types ref_append (append_store no_spare) used_mem used_message relay =
     (\<lparr>ID = 5, Func = ''f'', Args = Slice 0 1 3, Result = Slice 1 0 1, Error = None\<rparr>, [[0xc3, 2, 3], [9], [0xc3]], None)"
  by (simp add: write_eval)

theorem to_wire_functional_witness:
  "wire_of ref_types ref_append used_mem relay =
     Inr \<lparr>ID = 5, Func = ''f'', Args = [0xc3], Result = [], Error = None\<rparr> \<and>
   contents [[0xc3, 2, 3], [9], [0xc3]] (Slice 2 1 1) = contents used_mem (Slice 2 1 1)"
  using to_wire_functional [OF go_store.buffer_store_axioms used_separated _ relay_filled]
  by (auto simp: payload_slices_def deref_def wire_of_def payload_form_def ref_append_def raw_form_def split: sum.splits)

text \<open>
  C16. \<open>FromWire\<close> gives birpc everything the wire message carried, with each payload in an array
  of its own that no other live buffer uses, and nil for an absent one; the wire message keeps its
  identifier, function and error but only empty buffers, none larger than \<open>maxKeptBuffer\<close>.
\<close>

theorem from_wire_hands_over:
  assumes "separated mm (slices m @ ss)" and "FromWire mm msg m = (msg', m', mm')"
  shows "carries mm' msg' (deref mm m) \<and>
    separated mm' (slices m' @ payload_slices msg' @ ss) \<and> (\<forall>t \<in> set ss. contents mm' t = contents mm t) \<and>
    deref mm' m' = (deref mm m)\<lparr>Args := [], Result := []\<rparr> \<and>
    go_cap (Args m') \<le> 65536 \<and> go_cap (Result m') \<le> 65536"
  using FromWire_refines(8,10) [OF assms] from_wire_carries [OF assms] go_cap_keep [of "Args m"] go_cap_keep [of "Result m"]
  by (simp add: maxKeptBuffer_def)

theorem from_wire_hands_over_witness:
  "let (msg', m', mm') = FromWire used_mem plain_call used_message in
     carries mm' msg' \<lparr>ID = 99, Func = ''old'', Args = [1, 2], Result = [9], Error = Some \<lparr>Msg = ''old''\<rparr>\<rparr> \<and>
     contents mm' (Args m') = [] \<and> msg_Args msg' \<noteq> IRaw (Args used_message)"
proof -
  obtain msg' m' mm' where f: "FromWire used_mem plain_call used_message = (msg', m', mm')" by (metis prod_cases3)
  have "msg_Args msg' \<noteq> IRaw (Args used_message)"
    using f by (auto simp: FromWire_def handOver_def go_make_def Let_def)
  with from_wire_hands_over [OF used_separated f] f show ?thesis by (simp add: deref_def message.defs)
qed

lemma relay_form:
  assumes "msgp_encoding A obj" and "separated mm (slices m @ ss)" and "FromWire mm msg m = (msg', m', mm')"
  shows "wire_of T A mm' msg' = Inr (deref mm m)"
proof -
  have "payload_form T A mm' v = Inr w" if "given mm' v = Some w" for v w
    using that by (cases v) (auto simp: payload_form_def msgp_encoding.raw_marshal [OF assms(1)] raw_form_def split: if_splits)
  moreover have "map_option (\<lambda>e. \<lparr>Msg = Msg e\<rparr>) err = err" for err :: "mpc_error option"
    by (cases err) simp_all
  ultimately show ?thesis
    using from_wire_carries(1) [OF assms(2,3)]
    by (simp add: carries_def wire_of_def deref_def option.map_comp comp_def)
qed

text \<open>
  C27. A message can be passed on: what \<open>FromWire\<close> made of a decoded wire message, \<open>ToWire\<close>
  accepts, and whatever the wire message it is given held before, it then holds what the decoded
  one held; the payloads passed on, both wire messages' buffers and all others stay apart, and
  nothing but the buffers of the filled one is written to.
\<close>

theorem relay_roundtrip:
  assumes "msgp_encoding A obj" and "buffer_store store" and "separated mm (slices m @ slices w @ ss)"
    and "FromWire mm msg m = (msg', m', mm')" and "ToWire T A store mm' w msg' = (w', mm2, err)"
  shows "err = None \<and> deref mm2 w' = deref mm m \<and>
    separated mm2 (slices w' @ slices m' @ payload_slices msg' @ ss) \<and>
    (\<forall>t \<in> set (payload_slices msg'). contents mm2 t = contents mm' t) \<and> (\<forall>t \<in> set ss. contents mm2 t = contents mm t)"
proof -
  note fw = from_wire_carries [OF assms(3,4)]
  have sep: "separated mm' (slices w @ slices m' @ payload_slices msg' @ ss)"
    by (rule separated_msetD [OF fw(2)]) simp
  have "set (payload_slices msg') \<subseteq> set (slices m' @ payload_slices msg' @ ss)" by auto
  with separated_apart [OF sep] have "apart mm' (message_arrays w) (msg_Args msg')" "apart mm' (message_arrays w) (msg_Result msg')"
    by (auto simp: payload_slices_def)
  note tw = buffer_store.ToWire_refines [OF assms(2) sep this assms(5)]
  from tw fw(3) relay_form [OF assms(1,3,4), of T] show ?thesis by simp
qed

lemma relayed:
  "FromWire used_mem plain_call \<lparr>ID = 7, Func = ''f'', Args = Slice 0 2 3, Result = SliceNil, Error = None\<rparr> =
     (\<lparr>msg_ID = 7, msg_Func = ''f'', msg_Args = IRaw (Slice 3 2 2), msg_Result = INil, msg_Error = None\<rparr>,
      \<lparr>ID = 7, Func = ''f'', Args = Slice 0 0 3, Result = SliceNil, Error = None\<rparr>, used_mem @ [[1, 2]])"
  "ToWire ref_types ref_append (append_store no_spare) (used_mem @ [[1, 2]])
       \<lparr>ID = 99, Func = ''old'', Args = Slice 1 1 1, Result = Slice 2 1 1, Error = Some \<lparr>Msg = ''old''\<rparr>\<rparr>
       \<lparr>msg_ID = 7, msg_Func = ''f'', msg_Args = IRaw (Slice 3 2 2), msg_Result = INil, msg_Error = None\<rparr> =
     (\<lparr>ID = 7, Func = ''f'', Args = Slice 4 2 2, Result = Slice 2 0 1, Error = None\<rparr>, used_mem @ [[1, 2], [1, 2]], None)"
  by (simp_all add: FromWire_def handOver_def go_make_def write_eval)

theorem relay_roundtrip_witness:
  "deref (used_mem @ [[1, 2], [1, 2]]) \<lparr>ID = 7, Func = ''f'', Args = Slice 4 2 2, Result = Slice 2 0 1, Error = None\<rparr> =
     \<lparr>ID = 7, Func = ''f'', Args = [1, 2], Result = [], Error = None\<rparr>"
proof -
  have "separated used_mem (slices \<lparr>ID = 7, Func = ''f'', Args = Slice 0 2 3, Result = SliceNil, Error = None\<rparr> @
      slices \<lparr>ID = 99, Func = ''old'', Args = Slice 1 1 1, Result = Slice 2 1 1, Error = Some \<lparr>Msg = ''old''\<rparr>\<rparr> @ [])"
    by (simp add: separated_def slices_def)
  from relay_roundtrip [OF ref.msgp_encoding_axioms go_store.buffer_store_axioms this relayed]
  show ?thesis by (simp add: deref_def)
qed

text \<open>
  C8. Decoding into the buffers of a used wire message computes what decoding on plain byte lists
  computes, on every outcome, errors in the middle included, and touches no other live buffer.
\<close>

theorem decode_into_buffers_refines:
  assumes "buffer_store store" and "separated mm (slices z @ ss)"
    and "Message_DecodeMsg (mem_in store S) z (mm, s) = (z', (mm', s'), err)"
  shows "Message_DecodeMsg S (deref mm z) s = (deref mm' z', s', err) \<and>
    separated mm' (slices z' @ ss) \<and> (\<forall>t \<in> set ss. contents mm' t = contents mm t)"
  using buffer_store.decode_with_mem [OF assms(1,2) assms(3) [unfolded Message_DecodeMsg_with]]
  by (simp add: Message_DecodeMsg_with tracks_def)

lemma truncated_decode:
  "Message_DecodeMsg (mem_in (append_store no_spare) ref_reader) used_message (used_mem, [[0x95, 3, 0xa1, 0x78], [7, 0x92]]) =
     (\<lparr>ID = 3, Func = ''x'', Args = Slice 0 1 3, Result = Slice 1 1 1, Error = Some \<lparr>Msg = ''old''\<rparr>\<rparr>,
      ([[7, 2, 3], [9], [0xc3]], [[0x92]]), Some (WrapError (Lib ErrShortOrType) [''Result'']))"
  by code_simp

theorem decode_into_buffers_refines_witness:
  "Message_DecodeMsg ref_reader (deref used_mem used_message) [[0x95, 3, 0xa1, 0x78], [7, 0x92]] =
     (\<lparr>ID = 3, Func = ''x'', Args = [7], Result = [9], Error = Some \<lparr>Msg = ''old''\<rparr>\<rparr>, [[0x92]],
      Some (WrapError (Lib ErrShortOrType) [''Result'']))"
  using decode_into_buffers_refines [OF go_store.buffer_store_axioms used_separated truncated_decode]
  by (simp add: deref_def)

text \<open>
  C26. \<open>Unmarshal\<close> refuses a receiver that is not an Unmarshaler before it looks at the payload,
  leaves the receiver alone when there is no payload, refuses a payload that is not raw bytes,
  and otherwise runs the receiver's \<open>UnmarshalMsg\<close> on all of the payload's bytes.
\<close>

theorem unmarshal_outcomes:
  assumes "\<And>s. i = IRaw s \<Longrightarrow> slice_ok mm s"
  shows "Unmarshal T mm i ret =
    (case (unmarshaler T ret, given mm i) of
       (None, _) \<Rightarrow> (ret, Some (ErrorfT (type_name T ret) '' does not implement the msgp.Unmarshaler interface''))
     | (Some u, Some []) \<Rightarrow> (ret, None)
     | (Some u, Some raw) \<Rightarrow> (fst (u raw), snd (snd (u raw)))
     | (Some u, None) \<Rightarrow>
         (ret, (case i of IVal v \<Rightarrow> Some (ErrorfT (type_name T v) '' is not a raw MessagePack payload'') | _ \<Rightarrow> None)))"
proof (cases i)
  case (IRaw s)
  then have "contents mm s = [] \<longleftrightarrow> go_len s = 0" using assms by (simp add: contents_empty_iff)
  with IRaw show ?thesis by (auto simp: Unmarshal_def split: option.split list.split prod.split)
qed (simp_all add: Unmarshal_def split: option.split)

theorem unmarshal_outcomes_witness:
  "Unmarshal ref_types [[0x81, 0xa1, 0x61, 5, 0xc0]] (IRaw (Slice 0 4 5)) (VArgs sample_args) =
     (VArgs (sample_args\<lparr>args_A := 5\<rparr>), None)"
proof -
  have "Args_UnmarshalMsg ref_in sample_args [0x81, 0xa1, 0x61, 5] = (sample_args\<lparr>args_A := 5\<rparr>, [], None)"
    by code_simp
  then show ?thesis
    by (subst unmarshal_outcomes) (auto simp: test_types_def)
qed

end
