(* ===== verification/Ownership_Props.thy ===== *)
theory Ownership_Props
  imports Ownership Samples
begin

text \<open>
  The ownership of buffers as properties of every reachable state, with a run of one codec that
  decodes, hands a payload over and decodes again into the same buffer.
\<close>

section \<open>A run\<close>

abbreviation ref_step :: "system \<Rightarrow> system \<Rightarrow> bool" where
  "ref_step \<equiv> sys_step ref_types ref_append (append_store no_spare) ref_reader"

abbreviation ref_reachable :: "system \<Rightarrow> bool" where
  "ref_reachable \<equiv> sys_reachable ref_types ref_append (append_store no_spare) ref_reader"

abbreviation with_args :: "slice \<Rightarrow> u64 \<Rightarrow> slice message" where
  "with_args s i \<equiv> \<lparr>ID = i, Func = '''', Args = s, Result = SliceNil, Error = None\<rparr>"

text \<open>After the first hand-over: array 0 is the codec's buffer, array 1 the payload given out.\<close>

abbreviation handed_state :: system where
  "handed_state \<equiv> \<lparr>sys_mem = [[0x92, 5, 6], [0x92, 5, 6]], pool = [], writing = [],
     wires = [with_args (Slice 0 0 3) 1], given_out = [(Slice 1 3 3, [0x92, 5, 6])]\<rparr>"

abbreviation again_state :: system where
  "again_state \<equiv> \<lparr>sys_mem = [[7, 5, 6], [0x92, 5, 6]], pool = [], writing = [],
     wires = [with_args (Slice 0 1 3) 2], given_out = [(Slice 1 3 3, [0x92, 5, 6])]\<rparr>"

lemma first_decode:
  "Message_DecodeMsg (mem_in (append_store no_spare) ref_reader) new_Message ([], [[0x95, 1, 0xa0, 0x92, 5], [6, 0xc0, 0xc0]]) =
     (with_args (Slice 0 3 3) 1, ([[0x92, 5, 6]], [[]]), None)"
  by code_simp

lemma second_decode:
  "Message_DecodeMsg (mem_in (append_store no_spare) ref_reader) (with_args (Slice 0 0 3) 1)
     ([[0x92, 5, 6], [0x92, 5, 6]], [[0x95, 2, 0xa0, 7, 0xc0, 0xc0]]) =
     (with_args (Slice 0 1 3) 2, ([[7, 5, 6], [0x92, 5, 6]], [[]]), None)"
  by code_simp

lemma first_hand_over:
  "FromWire [[0x92, 5, 6]] plain_call (with_args (Slice 0 3 3) 1) =
     (\<lparr>msg_ID = 1, msg_Func = '''', msg_Args = IRaw (Slice 1 3 3), msg_Result = INil, msg_Error = None\<rparr>,
      with_args (Slice 0 0 3) 1, [[0x92, 5, 6], [0x92, 5, 6]])"
  by (simp add: mem_simps)

lemma handed_reachable: "ref_reachable handed_state"
proof -
  let ?s1 = "\<lparr>sys_mem = [], pool = [], writing = [], wires = [new_Message], given_out = []\<rparr>"
  let ?s2 = "\<lparr>sys_mem = [[0x92, 5, 6]], pool = [], writing = [], wires = [with_args (Slice 0 3 3) 1], given_out = []\<rparr>"
  have "ref_step init_system (init_system\<lparr>wires := new_Message # wires init_system\<rparr>)" by (rule new_codec)
  then have 1: "ref_reachable ?s1"
    using step [OF start] by (simp add: init_system_def)
  have "ref_step ?s1 (?s1\<lparr>sys_mem := [[0x92, 5, 6]], wires := (wires ?s1)[0 := with_args (Slice 0 3 3) 1]\<rparr>)"
    by (rule decode) (use first_decode in simp_all)
  then have 2: "ref_reachable ?s2" using step [OF 1] by simp
  have "ref_step ?s2 (?s2\<lparr>sys_mem := [[0x92, 5, 6], [0x92, 5, 6]], wires := (wires ?s2)[0 := with_args (Slice 0 0 3) 1],
      given_out := map (\<lambda>r. (r, contents [[0x92, 5, 6], [0x92, 5, 6]] r))
        (payload_slices (fst (FromWire [[0x92, 5, 6]] plain_call (with_args (Slice 0 3 3) 1)))) @ given_out ?s2\<rparr>)"
    by (rule hand_over [where msg = plain_call and i = 0]) (simp_all add: first_hand_over)
  then show ?thesis using step [OF 2] by (simp add: first_hand_over payload_slices_def)
qed

lemma handed_to_again: "ref_step handed_state again_state"
proof -
  have "ref_step handed_state (handed_state\<lparr>sys_mem := [[7, 5, 6], [0x92, 5, 6]],
      wires := (wires handed_state)[0 := with_args (Slice 0 1 3) 2]\<rparr>)"
    by (rule decode) (use second_decode in simp_all)
  then show ?thesis by simp
qed

section \<open>Properties\<close>

lemma given_out_kept: "sys_step T A store S s t \<Longrightarrow> p \<in> set (given_out s) \<Longrightarrow> p \<in> set (given_out t)"
  by (induction rule: sys_step.induct) auto

context buffer_store
begin

lemma given_out_contents:
  "sys_reachable T A store S s \<Longrightarrow> (r, bs) \<in> set (given_out s) \<Longrightarrow> contents (sys_mem s) r = bs"
  using reachable_inv by (fastforce simp: sys_inv_def)

end

text \<open>
  C1. A payload that was handed to birpc never changes: whatever the goroutines of all codecs do
  next, in whatever order, decoding new messages into the same wire message, filling and pooling
  messages, forwarding this very payload, its bytes stay those it was handed over with.
\<close>

theorem handed_over_payload_never_changes:
  assumes "buffer_store store" and "sys_reachable T A store S s" and "(r, bs) \<in> set (given_out s)"
    and "(sys_step T A store S)\<^sup>*\<^sup>* s t"
  shows "contents (sys_mem t) r = bs"
proof -
  from assms(4) have "sys_reachable T A store S t \<and> (r, bs) \<in> set (given_out t)"
    by (induction rule: rtranclp_induct) (use assms(2,3) given_out_kept in \<open>auto intro: step\<close>)
  then show ?thesis using buffer_store.given_out_contents [OF assms(1)] by blast
qed

theorem handed_over_payload_never_changes_witness:
  "wires again_state \<noteq> wires handed_state \<and> sys_mem again_state \<noteq> sys_mem handed_state \<and>
   contents (sys_mem again_state) (Slice 1 3 3) = [0x92, 5, 6]"
  using handed_over_payload_never_changes [OF go_store.buffer_store_axioms handed_reachable, of "Slice 1 3 3" "[0x92, 5, 6]"
      again_state] handed_to_again by auto

text \<open>
  C7. No two buffers in use share storage, at any time: the two payload buffers of every pooled
  message, of every message being written, of every codec's wire message, and all payloads in
  birpc's hands live in arrays of their own.
\<close>

theorem live_buffers_never_shared:
  assumes "buffer_store store" and "sys_reachable T A store S s"
  shows "distinct (concat (map arrays
    (concat (map (\<lambda>m. [Args m, Result m]) (pool s @ writing s @ wires s)) @ map fst (given_out s))))"
proof -
  have "(\<lambda>m. [Args m, Result m]) = slices" by (simp add: fun_eq_iff slices_def)
  with buffer_store.reachable_inv [OF assms] show ?thesis
    by (simp add: sys_inv_def separated_def live_def all_messages_def)
qed

theorem live_buffers_never_shared_witness:
  "distinct (concat (map arrays [Slice 0 0 3, SliceNil, Slice 1 3 3]))"
  using live_buffers_never_shared [OF go_store.buffer_store_axioms handed_reachable] by simp

text \<open>
  C25. What the pool holds is clean: no payload, no error of an earlier message, and no buffer
  larger than \<open>maxKeptBuffer\<close>, so one large message does not pin its buffers.
\<close>

theorem pooled_messages_clean_and_bounded:
  assumes "buffer_store store" and "sys_reachable T A store S s" and "m \<in> set (pool s)"
  shows "Error m = None \<and> contents (sys_mem s) (Args m) = [] \<and> contents (sys_mem s) (Result m) = [] \<and>
    go_cap (Args m) \<le> 65536 \<and> go_cap (Result m) \<le> 65536"
proof -
  have inv: "sys_inv s" by (rule buffer_store.reachable_inv [OF assms(1,2)])
  then have idle: "idle_ok m" using assms(3) by (simp add: sys_inv_def list_all_iff)
  have "set (slices m) \<subseteq> set (live s)" using assms(3) by (auto simp: live_def all_messages_def)
  with inv have "slice_ok (sys_mem s) (Args m)" "slice_ok (sys_mem s) (Result m)"
    by (auto simp: sys_inv_def separated_def slices_def list_all_iff)
  with idle show ?thesis by (simp add: idle_ok_def contents_empty_iff maxKeptBuffer_def)
qed

abbreviation pooled_state :: system where
  "pooled_state \<equiv> \<lparr>sys_mem = [], pool = [new_Message], writing = [], wires = [], given_out = []\<rparr>"

lemma pooled_reachable: "ref_reachable pooled_state"
proof -
  let ?s1 = "\<lparr>sys_mem = [], pool = [], writing = [new_Message], wires = [], given_out = []\<rparr>"
  have "ref_step init_system (init_system\<lparr>pool := [], writing := new_Message # writing init_system\<rparr>)"
    by (rule get [where pick = None]) (simp add: GetMessage_def init_system_def)
  then have 1: "ref_reachable ?s1" using step [OF start] by (simp add: init_system_def)
  have "ref_step ?s1 (?s1\<lparr>pool := PutMessage (writing ?s1 ! 0) (pool ?s1), writing := remove_at 0 (writing ?s1)\<rparr>)"
    by (rule put) simp
  then show ?thesis using step [OF 1] by (simp add: PutMessage_eq remove_at_def new_Message_def keep_def)
qed

theorem pooled_messages_clean_and_bounded_witness:
  "Error (new_Message :: slice message) = None \<and> go_cap (Args new_Message) \<le> 65536"
  using pooled_messages_clean_and_bounded [OF go_store.buffer_store_axioms pooled_reachable, of new_Message] by simp

end
