(* ===== verification/Critical.thy ===== *)
theory Critical
  imports Prelude
begin

text \<open>
  Goroutines that run a critical section under one mutex, statement by statement. \<open>'s\<close> is what
  they share, \<open>'l\<close> what each has of its own, errors included; the statements of a section are
  functions on both. The contract of a mutex is proved once: every interleaving has the outcome
  of running the sections one after the other, in some order, and nobody waits forever while
  nobody holds the lock.
\<close>

type_synonym ('s, 'l) stmt = "'s \<times> 'l \<Rightarrow> 's \<times> 'l"

primrec run_stmts :: "('s, 'l) stmt list \<Rightarrow> ('s, 'l) stmt" where
  "run_stmts [] x = x"
| "run_stmts (f # fs) x = run_stmts fs (f x)"

lemma run_stmts_append: "run_stmts (fs @ gs) x = run_stmts gs (run_stmts fs x)"
  by (induction fs arbitrary: x) simp_all

datatype ('s, 'l) thread = Waiting 'l | Inside "('s, 'l) stmt list" 'l | Returned 'l

text \<open>One step of thread \<open>i\<close>; \<open>mu\<close> is who has the mutex. None: it has to wait, or has returned.\<close>

fun thread_step ::
    "('l \<Rightarrow> ('s, 'l) stmt list) \<Rightarrow> nat \<Rightarrow> ('s, 'l) thread \<Rightarrow> nat option \<times> 's \<Rightarrow> (('s, 'l) thread \<times> nat option \<times> 's) option" where
  "thread_step body i (Waiting l) (mu, s) = (if mu = None then Some (Inside (body l) l, Some i, s) else None)"
| "thread_step body i (Inside (f # fs) l) (mu, s) = (case f (s, l) of (s, l) \<Rightarrow> Some (Inside fs l, mu, s))"
| "thread_step body i (Inside [] l) (mu, s) = Some (Returned l, None, s)"
| "thread_step body i (Returned l) (mu, s) = None"

fun_cases thread_stepE: "thread_step body i t (mu, s) = Some y"
fun_cases thread_waitsE: "thread_step body i t (mu, s) = None"

inductive threads_reachable ::
    "('l \<Rightarrow> ('s, 'l) stmt list) \<Rightarrow> 'l list \<Rightarrow> 's \<Rightarrow> ('s, 'l) thread list \<Rightarrow> nat option \<times> 's \<Rightarrow> bool"
  for body ls s0 where
  start: "threads_reachable body ls s0 (map Waiting ls) (None, s0)"
| step: "threads_reachable body ls s0 ts x \<Longrightarrow> i < length ts \<Longrightarrow> thread_step body i (ts ! i) x = Some (t, x') \<Longrightarrow>
    threads_reachable body ls s0 (ts[i := t]) x'"

text \<open>The same, with a log of the threads that have returned, in the order in which they released the lock.\<close>

inductive threads_logged ::
    "('l \<Rightarrow> ('s, 'l) stmt list) \<Rightarrow> 'l list \<Rightarrow> 's \<Rightarrow> nat list \<Rightarrow> ('s, 'l) thread list \<Rightarrow> nat option \<times> 's \<Rightarrow> bool"
  for body ls s0 where
  logged_start: "threads_logged body ls s0 [] (map Waiting ls) (None, s0)"
| logged_step: "threads_logged body ls s0 order ts x \<Longrightarrow> i < length ts \<Longrightarrow> thread_step body i (ts ! i) x = Some (t, x') \<Longrightarrow>
    threads_logged body ls s0 (if \<exists>l. t = Returned l then order @ [i] else order) (ts[i := t]) x'"

lemma logged_reachable: "threads_logged body ls s0 order ts x \<Longrightarrow> threads_reachable body ls s0 ts x"
  by (induction rule: threads_logged.induct) (blast intro: threads_reachable.intros)+

lemma reachable_logged: "threads_reachable body ls s0 ts x \<Longrightarrow> \<exists>order. threads_logged body ls s0 order ts x"
  by (induction rule: threads_reachable.induct) (blast intro: threads_logged.intros)+

fun inside :: "('s, 'l) thread \<Rightarrow> bool" where
  "inside (Inside fs l) = True" | "inside _ = False"

text \<open>The sections of the threads of a list, one after the other: the state, and what each thread has then.\<close>

primrec in_turn :: "('l \<Rightarrow> ('s, 'l) stmt list) \<Rightarrow> 'l list \<Rightarrow> nat list \<Rightarrow> 's \<Rightarrow> 's \<times> (nat \<times> 'l) list" where
  "in_turn body ls [] s = (s, [])"
| "in_turn body ls (i # is) s =
     (let (s, l) = run_stmts (body (ls ! i)) (s, ls ! i); (s, rs) = in_turn body ls is s in (s, (i, l) # rs))"

lemma in_turn_snoc:
  "in_turn body ls (is @ [i]) s =
     (let (s, rs) = in_turn body ls is s; (s, l) = run_stmts (body (ls ! i)) (s, ls ! i) in (s, rs @ [(i, l)]))"
  by (induction "is" arbitrary: s) (simp_all add: Let_def case_prod_beta)

lemma in_turn_fst: "in_turn body ls is s = (s', rs) \<Longrightarrow> map fst rs = is"
  by (induction "is" arbitrary: s s' rs) (auto simp: Let_def split: prod.splits)

definition lock_ok :: "('s, 'l) thread list \<Rightarrow> nat option \<Rightarrow> bool" where
  "lock_ok ts mu \<longleftrightarrow> (\<forall>i < length ts. inside (ts ! i) \<longleftrightarrow> mu = Some i) \<and> (\<forall>i. mu = Some i \<longrightarrow> i < length ts)"

text \<open>
  \<open>st\<close> and \<open>rs\<close> are the outcome of the sections that have returned; the section that runs has
  still to do what leads from where it is to the outcome of the whole of it.
\<close>

definition turns_ok ::
    "('l \<Rightarrow> ('s, 'l) stmt list) \<Rightarrow> 'l list \<Rightarrow> ('s, 'l) thread list \<Rightarrow> nat option \<Rightarrow> 's \<Rightarrow> 's \<Rightarrow> (nat \<times> 'l) list \<Rightarrow> bool" where
  "turns_ok body ls ts mu s st rs \<longleftrightarrow>
     (\<forall>i l. (i, l) \<in> set rs \<longleftrightarrow> i < length ts \<and> ts ! i = Returned l) \<and>
     (\<forall>i < length ts. \<forall>l. ts ! i = Waiting l \<longrightarrow> l = ls ! i) \<and>
     (case mu of
        None \<Rightarrow> s = st
      | Some i \<Rightarrow> \<forall>fs l. ts ! i = Inside fs l \<longrightarrow> run_stmts fs (s, l) = run_stmts (body (ls ! i)) (st, ls ! i))"

lemma lock_step:
  assumes ok: "lock_ok ts mu" and i: "i < length ts" and st: "thread_step body i (ts ! i) (mu, s) = Some (t, mu', s')"
  shows "lock_ok (ts[i := t]) mu'"
proof -
  have own: "inside (ts ! j) \<longleftrightarrow> mu = Some j" if "j < length ts" for j
    using ok that by (simp add: lock_ok_def)
  have t: "inside t \<longleftrightarrow> mu' = Some i"
    using st own [OF i] by (elim thread_stepE) (auto split: if_splits prod.splits)
  have other: "mu' = Some j \<longleftrightarrow> mu = Some j" if "j \<noteq> i" for j
    using st own [OF i] that by (elim thread_stepE) (auto split: if_splits prod.splits)
  have "inside (ts[i := t] ! j) \<longleftrightarrow> mu' = Some j" if "j < length ts" for j
    using t other own [OF that] that by (cases "j = i") auto
  moreover have "j < length ts" if "mu' = Some j" for j
    using ok other [of j] that i by (cases "j = i") (auto simp: lock_ok_def)
  ultimately show ?thesis by (simp add: lock_ok_def)
qed

lemma turns_okI:
  assumes "turns_ok body ls ts mu s st rs" and i: "i < length ts" and "\<And>l. t \<noteq> Waiting l"
    and new: "\<And>l. t = Returned l \<Longrightarrow> rs' = rs @ [(i, l)]" "(\<nexists>l. t = Returned l) \<Longrightarrow> rs' = rs" "\<And>l. ts ! i \<noteq> Returned l"
    and at: "case mu' of None \<Rightarrow> s' = st' | Some j \<Rightarrow> j = i \<and>
      (\<forall>fs l. t = Inside fs l \<longrightarrow> run_stmts fs (s', l) = run_stmts (body (ls ! i)) (st', ls ! i))"
  shows "turns_ok body ls (ts[i := t]) mu' s' st' rs'"
proof -
  have ret: "(j, l) \<in> set rs \<longleftrightarrow> j < length ts \<and> ts ! j = Returned l" for j l using assms(1) by (simp add: turns_ok_def)
  have "(j, l) \<in> set rs' \<longleftrightarrow> j < length ts \<and> ts[i := t] ! j = Returned l" for j l
  proof (cases "\<exists>l. t = Returned l")
    case True
    then show ?thesis using ret [of j l] new i by (cases "j = i") auto
  next
    case False
    then show ?thesis using ret [of j l] new i by (cases "j = i") auto
  qed
  moreover have "l = ls ! j" if "j < length ts" "ts[i := t] ! j = Waiting l" for j l
    using assms(1,3) that i by (cases "j = i") (auto simp: turns_ok_def)
  ultimately show ?thesis using at i by (auto simp: turns_ok_def split: option.splits)
qed

lemma turns_step:
  assumes lock: "lock_ok ts mu" and ok: "turns_ok body ls ts mu s st rs" and seq: "in_turn body ls order s0 = (st, rs)"
    and dist: "distinct order" and i: "i < length ts" and step: "thread_step body i (ts ! i) (mu, s) = Some (t, mu', s')"
  shows "\<exists>st rs. in_turn body ls (if \<exists>l. t = Returned l then order @ [i] else order) s0 = (st, rs) \<and>
    distinct (if \<exists>l. t = Returned l then order @ [i] else order) \<and> turns_ok body ls (ts[i := t]) mu' s' st rs"
proof (cases "ts ! i")
  case (Waiting l)
  then have "mu = None" "t = Inside (body l) l" "mu' = Some i" "s' = s" using step by (simp_all split: if_splits)
  moreover have "l = ls ! i" using ok Waiting i by (simp add: turns_ok_def)
  moreover have "s = st" using ok calculation(1) by (simp add: turns_ok_def)
  ultimately have "turns_ok body ls (ts[i := t]) mu' s' st rs"
    by (intro turns_okI [OF ok i]) (simp_all add: Waiting)
  with seq dist \<open>t = Inside (body l) l\<close> show ?thesis by auto
next
  case (Inside fs l)
  have mu: "mu = Some i" using lock i Inside by (auto simp: lock_ok_def)
  show ?thesis
  proof (cases fs)
    case Nil
    with Inside step have t: "t = Returned l" "mu' = None" "s' = s" by simp_all
    have fin: "run_stmts (body (ls ! i)) (st, ls ! i) = (s, l)" using ok mu Inside Nil by (simp add: turns_ok_def)
    have "i \<notin> set order"
      using ok Inside in_turn_fst [OF seq] by (force simp: turns_ok_def)
    moreover have "in_turn body ls (order @ [i]) s0 = (s, rs @ [(i, l)])" using seq fin by (simp add: in_turn_snoc)
    moreover have "turns_ok body ls (ts[i := t]) mu' s' s (rs @ [(i, l)])"
      by (rule turns_okI [OF ok i]) (simp_all add: Inside t)
    ultimately show ?thesis using dist t(1) by auto
  next
    case (Cons f gs)
    obtain s1 l1 where f: "f (s, l) = (s1, l1)" by fastforce
    with Inside Cons step have t: "t = Inside gs l1" "mu' = mu" "s' = s1" by simp_all
    have "turns_ok body ls (ts[i := t]) mu' s' st rs"
      using ok mu f by (intro turns_okI [OF ok i]) (simp_all add: Inside Cons t turns_ok_def)
    with seq dist t(1) show ?thesis by auto
  qed
qed (use step in simp)

lemma threads_inv:
  "threads_logged body ls s0 order ts x \<Longrightarrow> length ts = length ls \<and> lock_ok ts (fst x) \<and> distinct order \<and>
     (\<exists>st rs. in_turn body ls order s0 = (st, rs) \<and> turns_ok body ls ts (fst x) (snd x) st rs)"
proof (induction rule: threads_logged.induct)
  case logged_start
  have "turns_ok body ls (map Waiting ls) None s0 s0 []" by (auto simp: turns_ok_def)
  moreover have "lock_ok (map Waiting ls) None" by (simp add: lock_ok_def)
  ultimately show ?case by simp
next
  case (logged_step order ts x i t x')
  obtain mu s mu' s' where x: "x = (mu, s)" "x' = (mu', s')" by (metis surj_pair)
  note st = logged_step.hyps(3) [unfolded x]
  have lock: "lock_ok ts mu" using logged_step.IH x by simp
  obtain st rs where o: "in_turn body ls order s0 = (st, rs)" "distinct order" "turns_ok body ls ts mu s st rs"
    using logged_step.IH x by auto
  from turns_step [OF lock o(3,1,2) logged_step.hyps(2) st] lock_step [OF lock logged_step.hyps(2) st] logged_step.IH x
  show ?case by (cases "\<exists>l. t = Returned l") auto
qed

lemma reachable_lock: "threads_reachable body ls s0 ts x \<Longrightarrow> lock_ok ts (fst x)"
  using reachable_logged threads_inv by metis

text \<open>The mutex makes the sections atomic: each takes effect when it releases the lock.\<close>

lemma mutex_linear:
  assumes "threads_logged body ls s0 order ts (mu, s)"
  obtains rs st where "distinct order" and "in_turn body ls order s0 = (st, rs)" and "mu = None \<Longrightarrow> s = st"
    and "set order = {i. i < length ts \<and> (\<exists>l. ts ! i = Returned l)}" and "set order \<subseteq> {..<length ls}"
    and "\<And>i l. (i, l) \<in> set rs \<longleftrightarrow> i < length ts \<and> ts ! i = Returned l"
proof -
  obtain rs st where o: "distinct order" "in_turn body ls order s0 = (st, rs)" and ok: "turns_ok body ls ts mu s st rs"
    using threads_inv [OF assms] by auto
  have rs: "(i, l) \<in> set rs \<longleftrightarrow> i < length ts \<and> ts ! i = Returned l" for i l
    using ok by (simp add: turns_ok_def)
  have st: "s = st" if "mu = None" using ok that by (simp add: turns_ok_def)
  have "i \<in> set order \<longleftrightarrow> (\<exists>l. (i, l) \<in> set rs)" for i
    using in_turn_fst [OF o(2)] by force
  then have ids: "set order = {i. i < length ts \<and> (\<exists>l. ts ! i = Returned l)}" by (auto simp: rs)
  moreover have "set order \<subseteq> {..<length ls}" using ids threads_inv [OF assms] by auto
  ultimately show thesis using that o rs st by blast
qed

lemma mutex_atomic:
  assumes "threads_reachable body ls s0 ts (mu, s)"
  obtains order rs st where "distinct order" and "in_turn body ls order s0 = (st, rs)" and "mu = None \<Longrightarrow> s = st"
    and "set order = {i. i < length ts \<and> (\<exists>l. ts ! i = Returned l)}" and "set order \<subseteq> {..<length ls}"
    and "\<And>i l. (i, l) \<in> set rs \<longleftrightarrow> i < length ts \<and> ts ! i = Returned l"
proof -
  obtain order where "threads_logged body ls s0 order ts (mu, s)" using reachable_logged [OF assms] by blast
  then show thesis by (rule mutex_linear) (rule that)
qed

lemma mutex_exclusive:
  assumes "threads_reachable body ls s0 ts x" and "i < length ts" and "j < length ts" and "inside (ts ! i)" and "inside (ts ! j)"
  shows "i = j"
  using reachable_lock [OF assms(1)] assms(2-) by (auto simp: lock_ok_def)

lemma mutex_progress:
  assumes "threads_reachable body ls s0 ts x" and "j < length ts" and "\<nexists>l. ts ! j = Returned l"
  shows "\<exists>i < length ts. thread_step body i (ts ! i) x \<noteq> None"
proof (cases "thread_step body j (ts ! j) x")
  case None
  obtain mu s where x: "x = (mu, s)" by fastforce
  obtain l where "ts ! j = Waiting l" "mu \<noteq> None"
    using None assms(3) unfolding x by (elim thread_waitsE) (auto split: if_splits prod.splits)
  then obtain i where "mu = Some i" by auto
  then have "i < length ts" "inside (ts ! i)" using reachable_lock [OF assms(1)] x by (auto simp: lock_ok_def)
  moreover have "thread_step body i (ts ! i) x \<noteq> None"
    using \<open>inside (ts ! i)\<close> x by (cases rule: thread_step.cases [of "(body, i, ts ! i, x)"]) (auto split: prod.splits)
  ultimately show ?thesis by blast
qed (use assms(2) in auto)

text \<open>Both at once, the way the users of a mutex state them.\<close>

lemma mutex_contract:
  assumes "threads_reachable body ls s0 ts x"
  shows "(\<forall>i < length ts. \<forall>j < length ts. inside (ts ! i) \<longrightarrow> inside (ts ! j) \<longrightarrow> i = j) \<and>
    (\<forall>j < length ts. (\<nexists>l. ts ! j = Returned l) \<longrightarrow> (\<exists>i < length ts. thread_step body i (ts ! i) x \<noteq> None))"
  using mutex_exclusive [OF assms] mutex_progress [OF assms] by blast

text \<open>A thread that finds the lock free can run its section to the end.\<close>

lemma inside_runs:
  "threads_logged body ls s0 order ts (mu, s) \<Longrightarrow> i < length ts \<Longrightarrow> ts ! i = Inside fs l \<Longrightarrow>
   run_stmts fs (s, l) = (s', l') \<Longrightarrow> threads_logged body ls s0 (order @ [i]) (ts[i := Returned l']) (None, s')"
proof (induction fs arbitrary: ts s l)
  case Nil
  then show ?case using threads_logged.logged_step [OF Nil.prems(1,2)] by simp
next
  case (Cons f fs)
  obtain s1 l1 where f: "f (s, l) = (s1, l1)" by fastforce
  have "threads_logged body ls s0 order (ts[i := Inside fs l1]) (mu, s1)"
    using threads_logged.logged_step [OF Cons.prems(1,2)] Cons.prems(3) f by simp
  from Cons.IH [OF this, of l1] Cons.prems(2,4) f show ?case by simp
qed

lemma section_runs_logged:
  assumes "threads_logged body ls s0 order ts (None, s)" and "i < length ts" and "ts ! i = Waiting l"
    and "run_stmts (body l) (s, l) = (s', l')"
  shows "threads_logged body ls s0 (order @ [i]) (ts[i := Returned l']) (None, s')"
proof -
  have "threads_logged body ls s0 order (ts[i := Inside (body l) l]) (Some i, s)"
    using threads_logged.logged_step [OF assms(1,2)] assms(3) by simp
  from inside_runs [OF this, of i "body l" l] assms(2,4) show ?thesis by simp
qed

lemma section_runs:
  assumes "threads_reachable body ls s0 ts (None, s)" and "i < length ts" and "ts ! i = Waiting l"
    and "run_stmts (body l) (s, l) = (s', l')"
  shows "threads_reachable body ls s0 (ts[i := Returned l']) (None, s')"
proof -
  obtain order where "threads_logged body ls s0 order ts (None, s)" using reachable_logged [OF assms(1)] by blast
  then have "threads_logged body ls s0 (order @ [i]) (ts[i := Returned l']) (None, s')"
    using assms(2-) by (rule section_runs_logged)
  then show ?thesis by (rule logged_reachable)
qed

end
