(* ===== verification/Services.thy ===== *)
theory Services
  imports Testmsg Critical
begin

text \<open>
  The services of \<open>internal/testmsg/testmsg.go\<close>: the call counter, at the granularity at which
  goroutines interleave, and the birpc service \<open>Arith\<close>, whose calls of \<open>Wait\<close> are in flight beside
  the other calls and what happens to its channel.
\<close>

section \<open>Counter\<close>

text \<open>
  \<open>inc\<close> and \<open>Get\<close> are sections under \<open>mu\<close> in the sense of theory \<open>Critical\<close>, whose scheduler has
  the mutex. The increment is two statements, as it is in the machine: it is the mutex that has
  to make it one. A goroutine has of its own which of the two it calls and the value it loaded,
  for \<open>Get\<close> the one it returns.
\<close>

record counter =
  cnt :: i64

datatype counter_call = Inc | Get

fun counter_load :: "(counter, counter_call \<times> i64) stmt" where
  "counter_load (c, k, v) = (c, k, cnt c)"

fun counter_store :: "(counter, counter_call \<times> i64) stmt" where
  "counter_store (c, k, v) = (c\<lparr>cnt := v + 1\<rparr>, k, v)"

fun counter_section :: "counter_call \<times> i64 \<Rightarrow> (counter, counter_call \<times> i64) stmt list" where
  "counter_section (Inc, v) = [counter_load, counter_store]"
| "counter_section (Get, v) = [counter_load]"

abbreviation calling :: "counter_call list \<Rightarrow> (counter_call \<times> i64) list" where
  "calling ks \<equiv> map (\<lambda>k. (k, 0)) ks"

text \<open>What a whole section does, which is what the methods of \<open>Arith\<close> below take as one step.\<close>

definition Counter_inc :: "i64 \<Rightarrow> i64" where
  "Counter_inc n = n + 1"

definition Counter_Get :: "i64 \<Rightarrow> i64" where
  "Counter_Get n = n"

lemma counter_section_run:
  "run_stmts (counter_section (Inc, v)) (c, Inc, v) = (c\<lparr>cnt := Counter_inc (cnt c)\<rparr>, Inc, cnt c)"
  "run_stmts (counter_section (Get, v)) (c, Get, v) = (c, Get, Counter_Get (cnt c))"
  by (simp_all add: Counter_inc_def Counter_Get_def)

text \<open>How many of the calls of a list are increments.\<close>

definition incs :: "counter_call list \<Rightarrow> nat list \<Rightarrow> nat" where
  "incs ks order = length (filter (\<lambda>i. ks ! i = Inc) order)"

lemma incs_simps [simp]: "incs ks [] = 0" "incs ks (i # is) = (if ks ! i = Inc then 1 else 0) + incs ks is"
  by (simp_all add: incs_def)

text \<open>One after the other, every increment counts and every \<open>Get\<close> returns the count so far.\<close>

lemma counter_in_turn:
  "in_turn counter_section (calling ks) order c = (c', rs) \<Longrightarrow> set order \<subseteq> {..<length ks} \<Longrightarrow>
   cnt c' = cnt c + word_of_nat (incs ks order) \<and>
   (\<forall>n < length order. ks ! (order ! n) = Get \<longrightarrow> rs ! n = (order ! n, Get, cnt c + word_of_nat (incs ks (take n order))))"
proof (induction order arbitrary: c rs)
  case (Cons i order)
  obtain c1 l where r: "run_stmts (counter_section (ks ! i, 0)) (c, ks ! i, 0) = (c1, l)" by (metis surj_pair)
  obtain rs' where rest: "in_turn counter_section (calling ks) order c1 = (c', rs')" "rs = (i, l) # rs'"
    using Cons.prems r by (auto split: prod.splits)
  have k: "ks ! i = Inc \<and> cnt c1 = cnt c + 1 \<or> ks ! i = Get \<and> cnt c1 = cnt c \<and> l = (Get, cnt c)"
    using r by (cases "ks ! i") auto
  have "ks ! ((i # order) ! n) = Get \<longrightarrow>
      rs ! n = ((i # order) ! n, Get, cnt c + word_of_nat (incs ks (take n (i # order))))" if "n < length (i # order)" for n
    using that Cons.IH [OF rest(1)] Cons.prems(2) rest(2) k by (cases n) auto
  with Cons.IH [OF rest(1)] Cons.prems(2) k show ?case by auto
qed simp

section \<open>Arith\<close>

text \<open>
  \<open>Add\<close> and \<open>Explode\<close> on the number of calls counted so far; each counts itself first.
\<close>

definition ErrExploded :: "'e goerr" where
  "ErrExploded = ErrorsNew ''exploded on purpose''"

definition Arith_Add :: "test_args \<Rightarrow> test_result \<Rightarrow> i64 \<Rightarrow> test_result \<times> i64 \<times> 'e goerr option" where
  "Arith_Add args reply n =
     (let n = Counter_inc n;
          reply = reply\<lparr>res_C := args_A args + args_B args\<rparr>;
          reply = reply\<lparr>res_S := args_S args\<rparr>
      in (reply, n, None))"

definition Arith_Explode :: "test_args \<Rightarrow> test_result \<Rightarrow> i64 \<Rightarrow> test_result \<times> i64 \<times> 'e goerr option" where
  "Arith_Explode args reply n = (let n = Counter_inc n in (reply, n, Some ErrExploded))"

text \<open>
  \<open>Wait\<close> blocks, so its calls are in flight together with everything else that happens to the
  service. \<open>Block\<close> is nil or a channel; of a channel there matters how many values a receive can
  take from it, and whether it is closed.
\<close>

record chan =
  chan_values :: nat
  chan_closed :: bool

definition chan_receive :: "chan \<Rightarrow> chan option" where
  "chan_receive ch =
     (if 0 < chan_values ch then Some (ch\<lparr>chan_values := chan_values ch - 1\<rparr>)
      else if chan_closed ch then Some ch else None)"

record arith =
  Calls :: counter
  Block :: "chan option"

datatype wait_at = WCalled | WCounted | WReceived | WReturned test_result

fun Wait_step :: "test_args \<times> test_result \<Rightarrow> wait_at \<Rightarrow> arith \<Rightarrow> (wait_at \<times> arith) option" where
  "Wait_step call WCalled a = Some (WCounted, a\<lparr>Calls := (Calls a)\<lparr>cnt := Counter_inc (cnt (Calls a))\<rparr>\<rparr>)"
| "Wait_step call WCounted a =
     (case Block a of
        None \<Rightarrow> Some (WReceived, a)
      | Some ch \<Rightarrow> (case chan_receive ch of None \<Rightarrow> None | Some ch \<Rightarrow> Some (WReceived, a\<lparr>Block := Some ch\<rparr>)))"
| "Wait_step (args, reply) WReceived a = Some (WReturned (reply\<lparr>res_C := args_A args\<rparr>), a)"
| "Wait_step call (WReturned r) a = None"

text \<open>
  The service with its calls of \<open>Wait\<close>; \<open>others\<close> and \<open>block_sent\<close> are history, the other calls that were
  made and the values that were sent to \<open>Block\<close>.
\<close>

record arith_system =
  svc :: arith
  waits :: "wait_at list"
  others :: nat
  block_sent :: nat

inductive arith_step :: "(test_args \<times> test_result) list \<Rightarrow> arith_system \<Rightarrow> arith_system \<Rightarrow> bool" for ws where
  wait: "i < length (waits s) \<Longrightarrow> Wait_step (ws ! i) (waits s ! i) (svc s) = Some (p, a) \<Longrightarrow>
    arith_step ws s (s\<lparr>svc := a, waits := (waits s)[i := p]\<rparr>)"
| add: "Arith_Add args reply (cnt (Calls (svc s))) = (reply', n, err :: unit goerr option) \<Longrightarrow>
    arith_step ws s (s\<lparr>svc := (svc s)\<lparr>Calls := \<lparr>cnt = n\<rparr>\<rparr>, others := Suc (others s)\<rparr>)"
| explode: "Arith_Explode args reply (cnt (Calls (svc s))) = (reply', n, err :: unit goerr option) \<Longrightarrow>
    arith_step ws s (s\<lparr>svc := (svc s)\<lparr>Calls := \<lparr>cnt = n\<rparr>\<rparr>, others := Suc (others s)\<rparr>)"
| send: "Block (svc s) = Some ch \<Longrightarrow> \<not> chan_closed ch \<Longrightarrow>
    arith_step ws s (s\<lparr>svc := (svc s)\<lparr>Block := Some (ch\<lparr>chan_values := Suc (chan_values ch)\<rparr>)\<rparr>, block_sent := Suc (block_sent s)\<rparr>)"
| close_block: "Block (svc s) = Some ch \<Longrightarrow> \<not> chan_closed ch \<Longrightarrow>
    arith_step ws s (s\<lparr>svc := (svc s)\<lparr>Block := Some (ch\<lparr>chan_closed := True\<rparr>)\<rparr>\<rparr>)"

text \<open>A new service; \<open>blk\<close> is whether its \<open>Block\<close> is a channel.\<close>

definition new_arith :: "bool \<Rightarrow> arith" where
  "new_arith blk = \<lparr>Calls = \<lparr>cnt = 0\<rparr>, Block = (if blk then Some \<lparr>chan_values = 0, chan_closed = False\<rparr> else None)\<rparr>"

inductive arith_reachable :: "(test_args \<times> test_result) list \<Rightarrow> bool \<Rightarrow> arith_system \<Rightarrow> bool" for ws blk where
  arith_start: "arith_reachable ws blk \<lparr>svc = new_arith blk, waits = map (\<lambda>w. WCalled) ws, others = 0, block_sent = 0\<rparr>"
| arith_next: "arith_reachable ws blk s \<Longrightarrow> arith_step ws s t \<Longrightarrow> arith_reachable ws blk t"

text \<open>A call is past its receive.\<close>

fun released :: "wait_at \<Rightarrow> bool" where
  "released WReceived = True" | "released (WReturned r) = True" | "released _ = False"

text \<open>As long as \<open>Block\<close> is open, every value sent is either still in it or has released one call.\<close>

definition block_ok :: "bool \<Rightarrow> arith_system \<Rightarrow> bool" where
  "block_ok blk s \<longleftrightarrow> (Block (svc s) \<noteq> None) = blk \<and>
     (\<forall>ch. Block (svc s) = Some ch \<and> \<not> chan_closed ch \<longrightarrow> chan_values ch + length (filter released (waits s)) = block_sent s)"

definition arith_inv :: "(test_args \<times> test_result) list \<Rightarrow> bool \<Rightarrow> arith_system \<Rightarrow> bool" where
  "arith_inv ws blk s \<longleftrightarrow> length (waits s) = length ws \<and> block_ok blk s \<and>
     cnt (Calls (svc s)) = word_of_nat (others s + length (filter (\<lambda>p. p \<noteq> WCalled) (waits s))) \<and>
     (\<forall>i < length ws. \<forall>r. waits s ! i = WReturned r \<longrightarrow> r = (snd (ws ! i))\<lparr>res_C := args_A (fst (ws ! i))\<rparr>)"

lemma wait_inv:
  assumes inv: "arith_inv ws blk s" and i: "i < length (waits s)" and st: "Wait_step (ws ! i) (waits s ! i) (svc s) = Some (p, a)"
  shows "arith_inv ws blk (s\<lparr>svc := a, waits := (waits s)[i := p]\<rparr>)"
proof -
  note started = length_filter_update [OF i, of "\<lambda>p. p \<noteq> WCalled" p] and past = length_filter_update [OF i, of released p]
  have "cnt (Calls a) = word_of_nat (others s + length (filter (\<lambda>p. p \<noteq> WCalled) ((waits s)[i := p])))"
    using st inv started by (cases "(ws ! i, waits s ! i, svc s)" rule: Wait_step.cases)
      (auto simp: arith_inv_def Counter_inc_def split: option.splits)
  moreover have "block_ok blk (s\<lparr>svc := a, waits := (waits s)[i := p]\<rparr>)"
    using st inv past by (cases "(ws ! i, waits s ! i, svc s)" rule: Wait_step.cases)
      (auto simp: arith_inv_def block_ok_def chan_receive_def split: option.splits if_splits)
  moreover have "p = WReturned ((snd (ws ! i))\<lparr>res_C := args_A (fst (ws ! i))\<rparr>)" if "p = WReturned r" for r
    using st that by (cases "(ws ! i, waits s ! i, svc s)" rule: Wait_step.cases) (auto split: option.splits)
  ultimately show ?thesis using inv i by (auto simp: arith_inv_def nth_list_update)
qed

lemma arith_step_inv: "arith_step ws s t \<Longrightarrow> arith_inv ws blk s \<Longrightarrow> arith_inv ws blk t"
proof (induction rule: arith_step.induct)
  case (wait i s p a)
  then show ?case using wait_inv [of ws blk s i p a] by simp
qed (auto simp: arith_inv_def block_ok_def Arith_Add_def Arith_Explode_def Counter_inc_def)

lemma arith_reachable_inv: "arith_reachable ws blk s \<Longrightarrow> arith_inv ws blk s"
proof (induction rule: arith_reachable.induct)
  case arith_start
  show ?case by (simp add: arith_inv_def block_ok_def new_arith_def)
qed (blast intro: arith_step_inv)

end
