(* ===== verification/Testmsg_Props.thy ===== *)
theory Testmsg_Props
  imports Services Samples
begin

text \<open>
  Properties of the test types' generated codecs and of the services. The map codecs of
  \<open>examples/chat\<close> are made of the same parts; what differs there is in theory \<open>Chat_Props\<close>.
\<close>

section \<open>Codecs\<close>

text \<open>
  C31. A marshaled \<open>Args\<close> or \<open>Result\<close> unmarshals to itself into any receiver, with exactly its
  bytes consumed, and both the byte slice and the stream decoder read it.
\<close>

theorem testmsg_roundtrip:
  assumes "msgp_decoding A obj S (\<lambda>s. s)" and "msgp_decoding A obj S' view"
    and "str_ok (args_S a)" and "str_ok (res_S r)" and "view s = fst (Args_MarshalMsg A a []) @ fst (Result_MarshalMsg A r []) @ rest"
  shows "Args_UnmarshalMsg S za (fst (Args_MarshalMsg A a []) @ rest) = (a, rest, None) \<and>
    Result_UnmarshalMsg S zr (fst (Result_MarshalMsg A r []) @ rest) = (r, rest, None) \<and>
    (\<exists>s1 s2. Args_DecodeMsg S' za s = (a, s1, None) \<and> Result_DecodeMsg S' zr s1 = (r, s2, None) \<and> view s2 = rest)"
proof -
  have ok: "Args_ok a" "Result_ok r" using assms(3,4) by (simp_all add: Args_ok_def Result_ok_def)
  have d: "map_decoder A obj Args_ok (Args_entries A) (Args_MarshalMsg A) (Args_Msgsize A) S' view (Args_switch S')"
    "map_decoder A obj Result_ok (Result_entries A) (Result_MarshalMsg A) (Result_Msgsize A) S' view (Result_switch S')"
    using assms(2) msgp_decoding.args_decoder msgp_decoding.result_decoder by blast+
  have f: "Args_MarshalMsg A a [] = (map_form (Args_entries A a), None)" "Result_MarshalMsg A r [] = (map_form (Result_entries A r), None)"
    using map_codec.marshal_form [OF map_decoder.axioms(1) [OF d(1)], of a "[]"]
      map_codec.marshal_form [OF map_decoder.axioms(1) [OF d(2)], of r "[]"] by simp_all
  obtain s1 where s1: "Args_DecodeMsg S' za s = (a, s1, None)" "view s1 = map_form (Result_entries A r) @ rest"
    using readsE [OF map_decoder.decode_reads [OF d(1) ok(1)], of s _ za] assms(5) by (auto simp: f Args_DecodeMsg_def)
  obtain s2 where "Result_DecodeMsg S' zr s1 = (r, s2, None)" "view s2 = rest"
    using readsE [OF map_decoder.decode_reads [OF d(2) ok(2)] s1(2), of zr] by (auto simp: Result_DecodeMsg_def)
  with s1(1) msgp_type.roundtrip [OF Args_type [OF assms(1)] ok(1)] msgp_type.roundtrip [OF Result_type [OF assms(1)] ok(2)]
  show ?thesis by blast
qed

theorem testmsg_roundtrip_witness:
  "Args_UnmarshalMsg ref_in zero_args [0x83, 0xa1, 0x61, 20, 0xa1, 0x62, 0xfd, 0xa1, 0x73, 0xa2, 0x68, 0x69] = (sample_args, [], None)"
proof -
  have "fst (Args_MarshalMsg ref_append sample_args []) = [0x83, 0xa1, 0x61, 20, 0xa1, 0x62, 0xfd, 0xa1, 0x73, 0xa2, 0x68, 0x69]"
    by (simp add: Args_MarshalMsg_def ref_eval)
  then show ?thesis
    using testmsg_roundtrip [OF ref.msgp_decoding_axioms ref_stream.msgp_decoding_axioms, of sample_args
        "\<lparr>res_C = 0, res_S = ''''\<rparr>" "[fst (Args_MarshalMsg ref_append sample_args []) @
          fst (Result_MarshalMsg ref_append \<lparr>res_C = 0, res_S = ''''\<rparr> [])]" "[]" zero_args]
    by (simp add: str_ok_def)
qed

text \<open>
  C24. A peer may send the fields of \<open>Args\<close> in any order, leave some out, repeat them and add
  keys the type does not have: the decoder takes the fields that came, skips unknown keys with
  their values, whatever they are, and leaves the fields that did not come as the receiver had
  them.
\<close>

theorem args_fields_in_any_order:
  fixes v z :: test_args
  assumes "msgp_decoding A obj S view" and "str_ok (args_S v)" and "length ps < 16"
    and "\<forall>(k, w) \<in> set ps.
      if k = ''a'' then w = AppendInt64 A [] (args_A v)
      else if k = ''b'' then w = AppendInt64 A [] (args_B v)
      else if k = ''s'' then w = AppendString A [] (args_S v)
      else length k < 32 \<and> obj w"
    and "view s = (0x80 + word_of_nat (length ps)) # concat (map (\<lambda>(k, w). fixstr k @ w) ps) @ rest"
  shows "\<exists>s'. Args_DecodeMsg S z s =
     (\<lparr>args_A = if ''a'' \<in> fst ` set ps then args_A v else args_A z,
       args_B = if ''b'' \<in> fst ` set ps then args_B v else args_B z,
       args_S = if ''s'' \<in> fst ` set ps then args_S v else args_S z\<rparr>, s', None) \<and> view s' = rest"
proof -
  let ?es = "map (\<lambda>(k, w). (k, w, Args_merge {k} v)) ps"
  have "list_all (Args_carries A obj v) ps" using assms(4) by (simp add: list_all_iff Args_carries_def)
  note r = msgp_decoding.Args_any_order [OF assms(1-3) this, of z]
  have "map_form ?es = (0x80 + word_of_nat (length ps)) # concat (map (\<lambda>(k, w). fixstr k @ w) ps)"
    by (simp add: map_form_def entry_form_def comp_def case_prod_beta')
  with assms(5) have "view s = map_form ?es @ rest" by simp
  with r show ?thesis unfolding reads_def Args_merge_def by blast
qed

theorem args_fields_in_any_order_witness:
  "\<exists>s'. Args_DecodeMsg ref_reader sample_args [[0x83, 0xa1, 0x62], [7, 0xa2, 0x7a, 0x7a, 0x92, 1, 0xc0, 0xa1], [0x61, 1]] =
     (\<lparr>args_A = 1, args_B = 7, args_S = ''hi''\<rparr>, s', None) \<and> concat s' = []"
proof -
  let ?v = "\<lparr>args_A = 1, args_B = 7, args_S = ''''\<rparr>"
  have "mp_obj [0x92, 1, 0xc0]" by code_simp
  with args_fields_in_any_order [OF ref_stream.msgp_decoding_axioms, of ?v "[(''b'', [7]), (''zz'', [0x92, 1, 0xc0]), (''a'', [1])]"
      "[[0x83, 0xa1, 0x62], [7, 0xa2, 0x7a, 0x7a, 0x92, 1, 0xc0, 0xa1], [0x61, 1]]" "[]" sample_args]
  show ?thesis by (auto simp: str_ok_def ref_eval)
qed

text \<open>
  C35. The encoders of the test types agree: what \<open>EncodeMsg\<close> adds to a writer when it succeeds
  is what \<open>MarshalMsg\<close> appends, and \<open>Msgsize\<close> is an upper bound of its length.
\<close>

theorem testmsg_encoders_agree:
  assumes "msgp_writing A obj W out sent" and "Args_EncodeMsg W a w = (w1, None)" and "Result_EncodeMsg W r w1 = (w2, None)"
    and "str_ok (args_S a)" and "str_ok (res_S r)"
  shows "out w2 = out w @ fst (Args_MarshalMsg A a []) @ fst (Result_MarshalMsg A r []) \<and>
    length (fst (Args_MarshalMsg A a [])) \<le> Args_Msgsize A a \<and> length (fst (Result_MarshalMsg A r [])) \<le> Result_Msgsize A r"
proof -
  have enc: "msgp_encoding A obj" using assms(1) by (rule msgp_writing.axioms(1))
  have a: "Args_MarshalMsg A a [] = (map_form (Args_entries A a), None)"
    using map_codec.marshal_form [OF msgp_encoding.args_codec [OF enc], of a "[]"] by simp
  have r: "Result_MarshalMsg A r [] = (map_form (Result_entries A r), None)"
    using map_codec.marshal_form [OF msgp_encoding.result_codec [OF enc], of r "[]"] by simp
  show ?thesis
    using writesD [OF msgp_writing.Args_EncodeMsg_writes [OF assms(1)] assms(2)]
      writesD [OF msgp_writing.Result_EncodeMsg_writes [OF assms(1)] assms(3)]
      map_codec.entries_size [OF msgp_encoding.args_codec [OF enc], of a]
      map_codec.entries_size [OF msgp_encoding.result_codec [OF enc], of r] assms(4,5)
    by (simp add: a r Args_ok_def Result_ok_def)
qed

lemma zeros_encode:
  "Args_EncodeMsg ref_out zero_args \<lparr>buffered = [], delivered = [], room = 90\<rparr> =
     (\<lparr>buffered = [0x83, 0xa1, 0x61, 0, 0xa1, 0x62, 0, 0xa1, 0x73, 0xa0], delivered = [], room = 90\<rparr>, None)"
  "Result_EncodeMsg ref_out \<lparr>res_C = 1, res_S = ''''\<rparr>
     \<lparr>buffered = [0x83, 0xa1, 0x61, 0, 0xa1, 0x62, 0, 0xa1, 0x73, 0xa0], delivered = [], room = 90\<rparr> =
     (\<lparr>buffered = [0x83, 0xa1, 0x61, 0, 0xa1, 0x62, 0, 0xa1, 0x73, 0xa0, 0x82, 0xa1, 0x63, 1, 0xa1, 0x73, 0xa0],
       delivered = [], room = 90\<rparr>, None)"
  by (simp_all add: Args_EncodeMsg_def Result_EncodeMsg_def ref_out_def ref_put_def ref_eval)

theorem testmsg_encoders_agree_witness:
  "[0x83, 0xa1, 0x61, 0, 0xa1, 0x62, 0, 0xa1, 0x73, 0xa0, 0x82, 0xa1, 0x63, 1, 0xa1, 0x73, 0xa0] =
     fst (Args_MarshalMsg ref_append zero_args []) @ fst (Result_MarshalMsg ref_append \<lparr>res_C = 1, res_S = ''''\<rparr> [])"
  using testmsg_encoders_agree [OF ref_stream.msgp_writing_axioms zeros_encode] by (simp add: ref_written_def str_ok_def)

section \<open>Services\<close>

text \<open>
  C17. The counter is linearizable, however the goroutines that increment and read it
  interleave: at most one of them is between lock and unlock, some goroutine can always go on
  until all have returned, and in the order in which the calls released the lock, which is that
  of real time, each \<open>Get\<close> returned the number of increments before it; when the lock is free the
  counter holds the number of increments that have returned.
\<close>

theorem counter_counts_every_call:
  assumes log: "threads_logged counter_section (calling ks) \<lparr>cnt = 0\<rparr> order ts (mu, c)"
  shows "(\<forall>i < length ts. \<forall>j < length ts. inside (ts ! i) \<longrightarrow> inside (ts ! j) \<longrightarrow> i = j) \<and>
    (\<forall>j < length ts. (\<nexists>l. ts ! j = Returned l) \<longrightarrow> (\<exists>i < length ts. thread_step counter_section i (ts ! i) (mu, c) \<noteq> None)) \<and>
    distinct order \<and> set order = {i. i < length ts \<and> (\<exists>l. ts ! i = Returned l)} \<and>
    (\<forall>n < length order. ks ! (order ! n) = Get \<longrightarrow> ts ! (order ! n) = Returned (Get, word_of_nat (incs ks (take n order)))) \<and>
    (mu = None \<longrightarrow> cnt c = word_of_nat (incs ks order))"
proof -
  obtain rs c1 where o: "distinct order" "in_turn counter_section (calling ks) order \<lparr>cnt = 0\<rparr> = (c1, rs)"
    and ids: "set order = {i. i < length ts \<and> (\<exists>l. ts ! i = Returned l)}" "set order \<subseteq> {..<length ks}"
    and rs: "\<And>i l. (i, l) \<in> set rs \<longleftrightarrow> i < length ts \<and> ts ! i = Returned l" and c: "mu = None \<Longrightarrow> c = c1"
    by (rule mutex_linear [OF log]) auto
  note turn = counter_in_turn [OF o(2) ids(2)]
  have len: "length rs = length order" using in_turn_fst [OF o(2)] by (metis length_map)
  have "ts ! (order ! n) = Returned (Get, word_of_nat (incs ks (take n order)))" if n: "n < length order" "ks ! (order ! n) = Get" for n
  proof -
    have "rs ! n = (order ! n, Get, word_of_nat (incs ks (take n order)))" using turn n by simp
    then show ?thesis using rs [of "order ! n"] nth_mem [of n rs] n(1) len by simp
  qed
  with turn o(1) ids(1) c mutex_contract [OF logged_reachable [OF log]] show ?thesis by (intro conjI) auto
qed

lemma counter_steps:
  "threads_logged counter_section (calling [Get, Inc]) \<lparr>cnt = 0\<rparr> [1, 0] [Returned (Get, 1), Returned (Inc, 0)] (None, \<lparr>cnt = 1\<rparr>)"
proof -
  have "threads_logged counter_section (calling [Get, Inc]) \<lparr>cnt = 0\<rparr> [1] [Waiting (Get, 0), Returned (Inc, 0)] (None, \<lparr>cnt = 1\<rparr>)"
    using section_runs_logged [OF threads_logged.logged_start, of 1 "calling [Get, Inc]" "(Inc, 0)" counter_section "\<lparr>cnt = 0\<rparr>"] by simp
  from section_runs_logged [OF this, of 0 "(Get, 0)"] show ?thesis by simp
qed

theorem counter_counts_every_call_witness:
  "[Returned (Get, 1), Returned (Inc, 0)] ! 0 = Returned (Get, word_of_nat (incs [Get, Inc] (take 1 [1, 0]))) \<and>
   cnt \<lparr>cnt = 1\<rparr> = word_of_nat (incs [Get, Inc] [1, 0])"
  using counter_counts_every_call [OF counter_steps] by (simp add: All_less_Suc)

text \<open>
  C36. \<open>Wait\<close> keeps its calls in flight until \<open>Block\<close> lets them go, whatever other calls, sends
  and receives happen in between: every call of any method has been counted exactly once, those
  in flight included; a call that has returned replies with its own first argument; a call that has
  not returned can go on at once unless it has been counted and \<open>Block\<close> is an open channel of
  which every value sent so far has released another call; and an open \<open>Block\<close> has let no more
  calls go than values were sent.
\<close>

theorem wait_blocks_until_released:
  assumes "arith_reachable ws blk s"
  shows "cnt (Calls (svc s)) = word_of_nat (others s + length (filter (\<lambda>p. p \<noteq> WCalled) (waits s))) \<and>
    (\<forall>i < length ws. \<forall>r. waits s ! i = WReturned r \<longrightarrow> r = (snd (ws ! i))\<lparr>res_C := args_A (fst (ws ! i))\<rparr>) \<and>
    (\<forall>i < length ws. (\<nexists>r. waits s ! i = WReturned r) \<longrightarrow>
      (Wait_step (ws ! i) (waits s ! i) (svc s) = None \<longleftrightarrow>
        waits s ! i = WCounted \<and> (\<exists>ch. Block (svc s) = Some ch \<and> \<not> chan_closed ch) \<and>
        length (filter released (waits s)) = block_sent s)) \<and>
    (\<forall>ch. Block (svc s) = Some ch \<and> \<not> chan_closed ch \<longrightarrow> length (filter released (waits s)) \<le> block_sent s)"
proof -
  have inv: "arith_inv ws blk s" using assms by (rule arith_reachable_inv)
  have "Wait_step (ws ! i) (waits s ! i) (svc s) = None \<longleftrightarrow>
      waits s ! i = WCounted \<and> (\<exists>ch. Block (svc s) = Some ch \<and> \<not> chan_closed ch) \<and> length (filter released (waits s)) = block_sent s"
    if "\<nexists>r. waits s ! i = WReturned r" for i
    using that inv by (cases "(ws ! i, waits s ! i, svc s)" rule: Wait_step.cases)
      (auto simp: arith_inv_def block_ok_def chan_receive_def split: option.splits)
  moreover have "length (filter released (waits s)) \<le> block_sent s" if "Block (svc s) = Some ch" "\<not> chan_closed ch" for ch
    using inv that by (auto simp: arith_inv_def block_ok_def)
  ultimately show ?thesis using inv by (auto simp: arith_inv_def)
qed

text \<open>Two calls are counted, one value is sent, and the second call takes it.\<close>

abbreviation two_waits :: "(test_args \<times> test_result) list" where
  "two_waits \<equiv> [(sample_args, zero_result), (sample_args\<lparr>args_A := 4\<rparr>, zero_result)]"

abbreviation waiting_at :: "nat \<Rightarrow> i64 \<Rightarrow> nat \<Rightarrow> wait_at list \<Rightarrow> arith_system" where
  "waiting_at v n k ps \<equiv> \<lparr>svc = \<lparr>Calls = \<lparr>cnt = n\<rparr>, Block = Some \<lparr>chan_values = v, chan_closed = False\<rparr>\<rparr>, waits = ps, others = 0, block_sent = k\<rparr>"

lemma one_released:
  "arith_reachable two_waits True (waiting_at 0 2 1 [WCounted, WReturned \<lparr>res_C = 4, res_S = ''''\<rparr>])"
proof -
  have 0: "arith_reachable two_waits True (waiting_at 0 0 0 [WCalled, WCalled])"
    using arith_start [of two_waits True] by (simp add: new_arith_def)
  have 1: "arith_reachable two_waits True (waiting_at 0 1 0 [WCounted, WCalled])"
    using arith_next [OF 0 arith_step.wait [of 0]] by (simp add: Counter_inc_def)
  have 2: "arith_reachable two_waits True (waiting_at 0 2 0 [WCounted, WCounted])"
    using arith_next [OF 1 arith_step.wait [of 1]] by (simp add: Counter_inc_def)
  have 3: "arith_reachable two_waits True (waiting_at 1 2 1 [WCounted, WCounted])"
    using arith_next [OF 2 arith_step.send] by simp
  have 4: "arith_reachable two_waits True (waiting_at 0 2 1 [WCounted, WReceived])"
    using arith_next [OF 3 arith_step.wait [of 1]] by (simp add: chan_receive_def)
  show ?thesis
    using arith_next [OF 4 arith_step.wait [of 1]] by simp
qed

theorem wait_blocks_until_released_witness:
  "Wait_step (sample_args, zero_result) WCounted (svc (waiting_at 0 2 1 [WCounted, WReturned \<lparr>res_C = 4, res_S = ''''\<rparr>])) = None"
  using wait_blocks_until_released [OF one_released] by (simp add: All_less_Suc)

end
