(* ===== verification/Generic.thy ===== *)
theory Generic
  imports Codec Testmsg
begin

text \<open>
  \<open>generic/generic.go\<close>: the codec over any \<open>io.ReadWriteCloser\<close>. The connection's byte stream is
  behind the \<open>msgp.Reader\<close> and \<open>msgp.Writer\<close>, whose states the codec keeps; the connection
  itself is only closed. Each operation runs under its mutex (\<open>rmu\<close>, \<open>wmu\<close>), so it is one function
  from state to state. The last section shows that it is a channel in the sense of theory \<open>Codec\<close>.
\<close>

section \<open>The codec\<close>

record ('c, 's, 'w) gen_codec =
  gen_conn :: 'c
  gen_r :: 's
  gen_wire :: "slice message"
  gen_w :: 'w

definition Gen_ReadMessage ::
    "store \<Rightarrow> ('s, bytes, 'e) msgp_in \<Rightarrow> ('c, 's, 'w) gen_codec \<Rightarrow> mem \<Rightarrow> 'v birpc_message
       \<Rightarrow> 'v birpc_message \<times> ('c, 's, 'w) gen_codec \<times> mem \<times> 'e goerr option" where
  "Gen_ReadMessage store S c mm msg =
     (let (wire, (mm, r), err) = Message_DecodeMsg (mem_in store S) (gen_wire c) (mm, gen_r c);
          c = c\<lparr>gen_wire := wire, gen_r := r\<rparr> in
      if err \<noteq> None then (msg, c, mm, err) else
      let (msg, wire, mm) = FromWire mm msg (gen_wire c);
          c = c\<lparr>gen_wire := wire\<rparr>
      in (msg, c, mm, None))"

definition Gen_WriteMessage ::
    "('v, 'e) go_types \<Rightarrow> 'e msgp_append \<Rightarrow> store \<Rightarrow> ('w, 'e) msgp_out \<Rightarrow> nat option
       \<Rightarrow> ('c, 's, 'w) gen_codec \<Rightarrow> world \<Rightarrow> 'v birpc_message
       \<Rightarrow> ('c, 's, 'w) gen_codec \<times> world \<times> 'e goerr option" where
  "Gen_WriteMessage T A store W pick c st msg =
     (let (m, pool) = GetMessage pick (w_pool st);
          (m, mm, err) = ToWire T A store (w_mem st) m msg;
          st = \<lparr>w_mem = mm, w_pool = PutMessage m pool\<rparr> in  \<comment> \<open>deferred, on every path\<close>
      if err \<noteq> None then (c, st, err) else
      let (w, err) = Message_EncodeMsg W (deref mm m) (gen_w c);
          c = c\<lparr>gen_w := w\<rparr> in
      if err \<noteq> None then (c, st, err) else
      let (w, err) = Flush W (gen_w c);
          c = c\<lparr>gen_w := w\<rparr>
      in (c, st, err))"

definition Gen_Close ::
    "('c \<Rightarrow> 'c \<times> 'e goerr option) \<Rightarrow> ('c, 's, 'w) gen_codec \<Rightarrow> ('c, 's, 'w) gen_codec \<times> 'e goerr option" where
  "Gen_Close conn_Close c = (let (conn, err) = conn_Close (gen_conn c) in (c\<lparr>gen_conn := conn\<rparr>, err))"

definition Gen_UnmarshalArgs ::
    "('v, 'e) go_types \<Rightarrow> mem \<Rightarrow> 'v birpc_message \<Rightarrow> 'v \<Rightarrow> 'v \<times> 'e goerr option" where
  "Gen_UnmarshalArgs T mm msg args = Unmarshal T mm (msg_Args msg) args"

definition Gen_UnmarshalResult ::
    "('v, 'e) go_types \<Rightarrow> mem \<Rightarrow> 'v birpc_message \<Rightarrow> 'v \<Rightarrow> 'v \<times> 'e goerr option" where
  "Gen_UnmarshalResult T mm msg result = Unmarshal T mm (msg_Result msg) result"

definition Gen_NewCodec :: "('c \<Rightarrow> 's) \<Rightarrow> ('c \<Rightarrow> 'w) \<Rightarrow> 'c \<Rightarrow> ('c, 's, 'w) gen_codec" where
  "Gen_NewCodec NewReader NewWriter conn =
     \<lparr>gen_conn = conn, gen_r = NewReader conn, gen_wire = new_Message, gen_w = NewWriter conn\<rparr>"

definition Gen_NewEndpoint ::
    "('c \<Rightarrow> 's) \<Rightarrow> ('c \<Rightarrow> 'w) \<Rightarrow> (('c, 's, 'w) gen_codec \<Rightarrow> 'registry \<Rightarrow> 'endpoint) \<Rightarrow> 'registry \<Rightarrow> 'c \<Rightarrow> 'endpoint" where
  "Gen_NewEndpoint NewReader NewWriter birpc_NewEndpoint registry conn =
     birpc_NewEndpoint (Gen_NewCodec NewReader NewWriter conn) registry"

section \<open>Writing\<close>

text \<open>The parts of a write, with every intermediate result named.\<close>

lemma Gen_WriteMessage_cases:
  assumes run: "Gen_WriteMessage T A store W pick c st msg = (c', st', err)"
  obtains m pool' m' mm e1 where "GetMessage pick (w_pool st) = (m, pool')"
    and "ToWire T A store (w_mem st) m msg = (m', mm, e1)" and "st' = \<lparr>w_mem = mm, w_pool = PutMessage m' pool'\<rparr>"
    and "e1 \<noteq> None \<Longrightarrow> err = e1 \<and> c' = c"
    and "e1 = None \<Longrightarrow> err = None \<Longrightarrow> \<exists>w1. Message_EncodeMsg W (deref mm m') (gen_w c) = (w1, None) \<and>
      Flush W w1 = (gen_w c', None)"
    and "err = None \<Longrightarrow> e1 = None"
proof -
  obtain m pool' where g: "GetMessage pick (w_pool st) = (m, pool')" by fastforce
  obtain m' mm e1 where t: "ToWire T A store (w_mem st) m msg = (m', mm, e1)" by (metis prod_cases3)
  show thesis
    by (rule that [OF g t])
      (use run g t in \<open>auto simp: Gen_WriteMessage_def Let_def split: prod.splits if_splits\<close>)
qed

lemma generic_sender:
  assumes W: "msgp_writing A obj W out sent" and store: "buffer_store store"
  shows "message_sender T A (Gen_WriteMessage T A store W) (\<lambda>c. []) (\<lambda>c. out (gen_w c) = sent (gen_w c))
    (\<lambda>c. sent (gen_w c)) (message_form A)"
proof (unfold_locales, goal_cases)
  case (1 c ss st msg pick c' st' err)
  from 1(3) obtain m pool' m' mm e1 where p: "GetMessage pick (w_pool st) = (m, pool')"
    "ToWire T A store (w_mem st) m msg = (m', mm, e1)" "st' = \<lparr>w_mem = mm, w_pool = PutMessage m' pool'\<rparr>"
    by (rule Gen_WriteMessage_cases)
  from buffer_store.to_wire_world [OF store _ 1(2) p(1,2)] 1(1) put_world p(3) show ?case by simp
next
  case (2 c ss st msg pick c' st')
  from 2(4) obtain m pool' m' mm w1 where p: "GetMessage pick (w_pool st) = (m, pool')"
    "ToWire T A store (w_mem st) m msg = (m', mm, None)"
    and w: "Message_EncodeMsg W (deref mm m') (gen_w c) = (w1, None)" "Flush W w1 = (gen_w c', None)"
    by (rule Gen_WriteMessage_cases) auto
  obtain am where am: "wire_of T A (w_mem st) msg = Inr am" "deref mm m' = am"
    using buffer_store.to_wire_world(3) [OF store _ 2(2) p] 2(1) by (auto split: sum.splits)
  have "out w1 = out (gen_w c) @ message_form A am"
    using writesD [OF msgp_writing.Message_EncodeMsg_writes [OF W] w(1)] am(2) by simp
  with msgp_writing.flush [OF W w(2)] 2(3) am(1) show ?case by simp
next
  case (3 c ss st msg e pick c' st' err)
  from 3(4) obtain m pool' m' mm e1 where p: "GetMessage pick (w_pool st) = (m, pool')"
    "ToWire T A store (w_mem st) m msg = (m', mm, e1)" and e: "e1 \<noteq> None \<Longrightarrow> err = e1 \<and> c' = c"
    by (rule Gen_WriteMessage_cases) blast
  have "e1 = Some e"
    using buffer_store.to_wire_world(3) [OF store _ 3(2) p] 3(1,3) by simp
  with e show ?case by simp
qed

section \<open>Reading\<close>

lemma generic_receiver:
  assumes S: "msgp_decoding A obj S view" and store: "buffer_store store"
  shows "message_receiver obj (\<lambda>c mm msg. Some (Gen_ReadMessage store S c mm msg)) (\<lambda>c. slices (gen_wire c))
    (\<lambda>c. True) (\<lambda>c. view (gen_r c)) (message_form A)"
proof (unfold_locales, goal_cases)
  case (1 mm c ss am rest msg)
  obtain s' where s': "Message_DecodeMsg S (deref mm (gen_wire c)) (gen_r c) = (am, s', None)" "view s' = rest"
    by (rule readsE [OF msgp_decoding.Message_DecodeMsg_reads [OF S 1(4)] 1(3)])
  obtain z mm1 s1 e1 where d: "Message_DecodeMsg (mem_in store S) (gen_wire c) (mm, gen_r c) = (z, (mm1, s1), e1)"
    by (metis prod.collapse)
  from buffer_store.decode_with_mem [OF store 1(1) d [unfolded Message_DecodeMsg_with]] s'
  have z: "deref mm1 z = am" "s1 = s'" "e1 = None" and tr: "tracks ss (gen_wire c) mm z mm1"
    by (simp_all add: Message_DecodeMsg_with)
  obtain msg' m' mm2 where f: "FromWire mm1 msg z = (msg', m', mm2)" by (metis prod_cases3)
  note fw = from_wire_carries [OF _ f, of ss]
  have "Gen_ReadMessage store S c mm msg = (msg', c\<lparr>gen_wire := m', gen_r := s'\<rparr>, mm2, None)"
    using d f z by (simp add: Gen_ReadMessage_def)
  with fw tr z s'(2) show ?case by (simp add: tracks_def)
qed

section \<open>A channel\<close>

lemma generic_channel:
  assumes "msgp_writing A obj W out sent" and "msgp_decoding A obj S view" and "buffer_store store"
  shows "message_channel T A (Gen_WriteMessage T A store W) (\<lambda>c. []) (\<lambda>c. out (gen_w c) = sent (gen_w c))
    (\<lambda>c. sent (gen_w c)) (message_form A) obj (\<lambda>c mm msg. Some (Gen_ReadMessage store S c mm msg))
    (\<lambda>c. slices (gen_wire c)) (\<lambda>c. True) (\<lambda>c. view (gen_r c))"
  unfolding message_channel_def by (intro conjI generic_sender [OF assms(1,3)] generic_receiver [OF assms(2,3)])

interpretation ref_generic: message_channel T ref_append "Gen_WriteMessage T ref_append (append_store grow) ref_out"
    "\<lambda>c. []" "\<lambda>c. ref_written (gen_w c) = delivered (gen_w c)" "\<lambda>c. delivered (gen_w c)" "message_form ref_append"
    mp_obj "\<lambda>c mm msg. Some (Gen_ReadMessage (append_store grow) ref_reader c mm msg)" "\<lambda>c. slices (gen_wire c)"
    "\<lambda>c. True" "\<lambda>c. concat (gen_r c)" for T grow
  by (rule generic_channel [OF ref_stream.msgp_writing_axioms ref_stream.msgp_decoding_axioms go_store.buffer_store_axioms])

end
