(* ===== verification/Generic_Props.thy ===== *)
theory Generic_Props
  imports Generic Samples
begin

text \<open>Properties of the generic codec, with examples on the reference instance.\<close>

abbreviation sample_generic :: "bytes list \<Rightarrow> (unit, bytes list, ref_writer) gen_codec" where
  "sample_generic r \<equiv> \<lparr>gen_conn = (), gen_r = r, gen_wire = new_Message,
     gen_w = \<lparr>buffered = [], delivered = [], room = 100\<rparr>\<rparr>"

abbreviation generic_write where
  "generic_write \<equiv> Gen_WriteMessage ref_types ref_append (append_store no_spare) ref_out"

text \<open>
  C2. Messages written back to back to a stream, however the connection cuts it into pieces, are
  read one by one, in order, each with the identifier, function, payload bytes and error its
  sender gave; the payloads handed over first are intact when the last message has been read.
\<close>

theorem generic_fifo:
  fixes msgs :: "'v birpc_message list"
  assumes "msgp_writing A obj W out sent" and "msgp_decoding A obj S view" and "buffer_store store"
    and "write_all (Gen_WriteMessage T A store W) pick msgs c st = Some (c', st')"
    and "world_ok ss st" and "set (concat (map payload_slices msgs)) \<subseteq> set ss"
    and "out (gen_w c) = []" and "sent (gen_w c) = []"
    and "\<forall>msg \<in> set msgs. \<forall>am. wire_of T A (w_mem st) msg = Inr am \<longrightarrow> message_ok obj am"
    and "separated mm (slices (gen_wire r))" and "view (gen_r r) = sent (gen_w c') @ rest"
  shows "\<exists>ams (msgs' :: 'v birpc_message list) r' mm'. map (wire_of T A (w_mem st)) msgs = map Inr ams \<and>
    read_all (\<lambda>c mm msg. Some (Gen_ReadMessage store S c mm msg)) (length msgs) r mm = Some (msgs', r', mm') \<and>
    view (gen_r r') = rest \<and> list_all2 (carries mm') msgs' ams"
proof -
  have sep: "separated mm (slices (gen_wire r) @ [])" using assms(10) by simp
  have w: "world_ok ([] @ ss) st" and o: "out (gen_w c) = sent (gen_w c)" using assms(5,7,8) by simp_all
  from message_channel.fifo [OF generic_channel [OF assms(1-3)] assms(4) w o assms(6,8,9) sep TrueI assms(11)]
  show ?thesis by blast
qed

abbreviation two_messages :: bytes where
  "two_messages \<equiv> [0x95, 7, 0xa9, 0x41, 0x72, 0x69, 0x74, 0x68, 0x2e, 0x41, 0x64, 0x64, 0x83, 0xa1, 0x61, 20, 0xa1,
     0x62, 0xfd, 0xa1, 0x73, 0xa2, 0x68, 0x69, 0xc0, 0xc0, 0x95, 8, 0xa0, 0xc0, 0xc0, 0x91, 0xa4, 0x62, 0x6f, 0x6f, 0x6d]"

lemma two_written:
  "write_all generic_write None [sample_call, sample_failure] (sample_generic []) empty_world =
     Some (sample_generic [] \<lparr>gen_w := \<lparr>buffered = [], delivered = two_messages, room = 63\<rparr>\<rparr>,
       \<lparr>w_mem = [[0x83, 0xa1, 0x61, 20, 0xa1, 0x62, 0xfd, 0xa1, 0x73, 0xa2, 0x68, 0x69]],
        w_pool = [\<lparr>ID = 8, Func = '''', Args = SliceNil, Result = SliceNil, Error = None\<rparr>,
                  \<lparr>ID = 7, Func = ''Arith.Add'', Args = Slice 0 0 12, Result = SliceNil, Error = None\<rparr>]\<rparr>)"
  by (simp add: Gen_WriteMessage_def write_eval)

theorem generic_fifo_witness:
  "\<exists>ams (msgs' :: test_value birpc_message list) r' mm'.
    map (wire_of ref_types ref_append []) [sample_call, sample_failure] = map Inr ams \<and>
    read_all (\<lambda>c mm msg. Some (Gen_ReadMessage (append_store no_spare) ref_reader c mm msg)) 2
      (sample_generic [take 9 two_messages, [], drop 9 two_messages @ [0x95]]) [] = Some (msgs', r', mm') \<and>
    concat (gen_r r') = [0x95] \<and> list_all2 (carries mm') msgs' ams"
  using generic_fifo [OF ref_stream.msgp_writing_axioms ref_stream.msgp_decoding_axioms go_store.buffer_store_axioms
      two_written empty_world_ok, where mm = "[]" and rest = "[0x95]"
        and r = "sample_generic [take 9 two_messages, [], drop 9 two_messages @ [0x95]]"]
    samples_ok
  by (simp add: payload_slices_def ref_written_def separated_def slices_def new_Message_def numeral_2_eq_2)

lemma stream_travels:
  assumes "msgp_writing A obj W out sent" and "msgp_decoding A obj S view" and "buffer_store store"
    and "message_travels T obj msg za va zr vr"
    and "Gen_WriteMessage T A store W pick c st msg = (c', st', None)"
    and "world_ok [] st" and "out (gen_w c) = sent (gen_w c)" and "sent (gen_w c') = sent (gen_w c) @ new"
    and "separated mm (slices (gen_wire r))" and "view (gen_r r) = new @ rest"
  shows "\<exists>msg' r' mm'. Gen_ReadMessage store S r mm old = (msg', r', mm', None) \<and> view (gen_r r') = rest \<and>
    msg_ID msg' = msg_ID msg \<and> msg_Func msg' = msg_Func msg \<and> msg_Error msg' = msg_Error msg \<and>
    Gen_UnmarshalArgs T mm' msg' za = (va, None) \<and> Gen_UnmarshalResult T mm' msg' zr = (vr, None)"
proof -
  have "separated mm (slices (gen_wire r) @ [])" using assms(9) by simp
  from message_channel.travel [OF generic_channel [OF assms(1-3)] assms(4-8) this TrueI assms(10), of old]
  show ?thesis by (simp add: Gen_UnmarshalArgs_def Gen_UnmarshalResult_def)
qed

text \<open>
  C28. A message whose arguments or result cannot be serialized is refused: \<open>WriteMessage\<close> returns
  the error that names the payload, nothing reaches the writer, and the wire message goes back to
  the pool, empty and with no more than the allowed buffers.
\<close>

theorem generic_refuses_unserializable:
  assumes "buffer_store store" and "world_ok ss st" and "set (payload_slices msg) \<subseteq> set ss"
    and "wire_of T A (w_mem st) msg = Inl e"
  shows "\<exists>st'. Gen_WriteMessage T A store W pick c st msg = (c, st', Some e) \<and> world_ok ss st' \<and>
    w_pool st' = hd (w_pool st') # snd (GetMessage pick (w_pool st)) \<and> idle_ok (hd (w_pool st'))"
proof -
  obtain c' st' err where run: "Gen_WriteMessage T A store W pick c st msg = (c', st', err)"
    by (metis prod_cases3)
  then obtain m pool' m' mm e1 where p: "GetMessage pick (w_pool st) = (m, pool')"
    "ToWire T A store (w_mem st) m msg = (m', mm, e1)" and st': "st' = \<lparr>w_mem = mm, w_pool = PutMessage m' pool'\<rparr>"
    and e1: "e1 \<noteq> None \<Longrightarrow> err = e1 \<and> c' = c"
    by (rule Gen_WriteMessage_cases) blast
  note w = buffer_store.to_wire_world [OF assms(1-3) p]
  have "world_ok ss st'" unfolding st' by (rule put_world [OF w(1)])
  moreover have "e1 = Some e" using w(3) assms(4) by simp
  ultimately show ?thesis using run e1 p(1) by (simp add: st' PutMessage_eq idle_keep)
qed

theorem generic_refuses_unserializable_witness:
  "\<exists>st'. generic_write None (sample_generic []) empty_world plain_call =
    (sample_generic [], st', Some (ErrorfV ''marshaling args: ''
       (ErrorfT ''*testmsg.Plain'' '' does not implement the msgp.Marshaler interface'')))"
proof -
  have "wire_of ref_types ref_append (w_mem empty_world) plain_call = Inl (ErrorfV ''marshaling args: ''
       (ErrorfT ''*testmsg.Plain'' '' does not implement the msgp.Marshaler interface''))"
    by (simp add: wire_of_def payload_form_def test_types_def not_marshaler_def)
  from generic_refuses_unserializable [OF go_store.buffer_store_axioms empty_world_ok _ this]
  show ?thesis by (simp add: payload_slices_def) blast
qed

end
