(* ===== verification/Websocket.thy ===== *)
theory Websocket
  imports Codec Testmsg
begin

text \<open>
  \<open>websocket/websocket.go\<close>: the codec that sends one birpc message per binary websocket message.
  \<open>gorilla/websocket\<close> is a parameter, with its documented behaviour as the laws of two locales:
  what a reader or writer obtained from the connection stands for, and that closing a writer
  completes its message. The codec's \<open>msgp.Reader\<close> and \<open>msgp.Writer\<close> are pointed at the
  message of the moment with \<open>Reset\<close>.
\<close>

section \<open>The websocket library as a parameter\<close>

definition BinaryMessage :: int where
  "BinaryMessage = 2"

text \<open>
  \<open>'ws\<close> is the connection, \<open>'rd\<close> and \<open>'wr\<close> are the reader and the writer of one message. What a
  \<open>msgp.Writer\<close> has flushed into the message it was reset to is part of its state \<open>'w\<close>, which is
  why closing the message takes it.
\<close>

record ('ws, 'rd, 'wr, 's, 'w, 'e) ws_lib =
  NextReader :: "'ws \<Rightarrow> int \<times> 'rd \<times> 'ws \<times> 'e goerr option"
  Reader_Reset :: "'s \<Rightarrow> 'rd \<Rightarrow> 's"
  NextWriter :: "'ws \<Rightarrow> int \<Rightarrow> 'wr \<times> 'ws \<times> 'e goerr option"
  Writer_Reset :: "'w \<Rightarrow> 'wr \<Rightarrow> 'w"
  Writer_Close :: "'wr \<Rightarrow> 'w \<Rightarrow> 'ws \<Rightarrow> 'w \<times> 'ws \<times> 'e goerr option"
  Conn_Close :: "'ws \<Rightarrow> 'ws \<times> 'e goerr option"

section \<open>The codec\<close>

definition ErrInvalidMsg :: "'e goerr" where
  "ErrInvalidMsg = ErrorsNew ''Websocket message was not a binary message''"

record ('ws, 's, 'w) ws_codec =
  ws_conn :: 'ws
  ws_r :: 's
  ws_wire :: "slice message"
  ws_w :: 'w

definition Ws_ReadMessage ::
    "('ws, 'rd, 'wr, 's, 'w, 'e) ws_lib \<Rightarrow> store \<Rightarrow> ('s, bytes, 'e) msgp_in \<Rightarrow> ('ws, 's, 'w) ws_codec \<Rightarrow> mem
       \<Rightarrow> 'v birpc_message \<Rightarrow> 'v birpc_message \<times> ('ws, 's, 'w) ws_codec \<times> mem \<times> 'e goerr option" where
  "Ws_ReadMessage L store S c mm msg =
     (let (mt, r, ws, err) = NextReader L (ws_conn c);
          c = c\<lparr>ws_conn := ws\<rparr> in
      if err \<noteq> None then (msg, c, mm, err) else
      if mt \<noteq> BinaryMessage then (msg, c, mm, Some ErrInvalidMsg) else
      let c = c\<lparr>ws_r := Reader_Reset L (ws_r c) r\<rparr>;
          (wire, (mm, rr), err) = Message_DecodeMsg (mem_in store S) (ws_wire c) (mm, ws_r c);
          c = c\<lparr>ws_wire := wire, ws_r := rr\<rparr> in
      if err \<noteq> None then (msg, c, mm, err) else
      let (msg, wire, mm) = FromWire mm msg (ws_wire c);
          c = c\<lparr>ws_wire := wire\<rparr>
      in (msg, c, mm, None))"

definition Ws_WriteMessage ::
    "('v, 'e) go_types \<Rightarrow> 'e msgp_append \<Rightarrow> store \<Rightarrow> ('w, 'e) msgp_out \<Rightarrow> ('ws, 'rd, 'wr, 's, 'w, 'e) ws_lib
       \<Rightarrow> nat option \<Rightarrow> ('ws, 's, 'w) ws_codec \<Rightarrow> world \<Rightarrow> 'v birpc_message
       \<Rightarrow> ('ws, 's, 'w) ws_codec \<times> world \<times> 'e goerr option" where
  "Ws_WriteMessage T A store W L pick c st msg =
     (let (m, pool) = GetMessage pick (w_pool st);
          (m, mm, err) = ToWire T A store (w_mem st) m msg;
          st = \<lparr>w_mem = mm, w_pool = PutMessage m pool\<rparr> in  \<comment> \<open>deferred, on every path\<close>
      if err \<noteq> None then (c, st, err) else
      let (w, ws, err) = NextWriter L (ws_conn c) BinaryMessage;
          c = c\<lparr>ws_conn := ws\<rparr> in
      if err \<noteq> None then (c, st, err) else
      let c = c\<lparr>ws_w := Writer_Reset L (ws_w c) w\<rparr>;
          (mw, err) = Message_EncodeMsg W (deref mm m) (ws_w c);
          c = c\<lparr>ws_w := mw\<rparr> in
      if err \<noteq> None then
        let (mw, ws, _) = Writer_Close L w (ws_w c) (ws_conn c) in (c\<lparr>ws_w := mw, ws_conn := ws\<rparr>, st, err) else
      let (mw, err) = Flush W (ws_w c);
          c = c\<lparr>ws_w := mw\<rparr> in
      if err \<noteq> None then
        let (mw, ws, _) = Writer_Close L w (ws_w c) (ws_conn c) in (c\<lparr>ws_w := mw, ws_conn := ws\<rparr>, st, err) else
      let (mw, ws, err) = Writer_Close L w (ws_w c) (ws_conn c)
      in (c\<lparr>ws_w := mw, ws_conn := ws\<rparr>, st, err))"

definition Ws_Close ::
    "('ws, 'rd, 'wr, 's, 'w, 'e) ws_lib \<Rightarrow> ('ws, 's, 'w) ws_codec \<Rightarrow> ('ws, 's, 'w) ws_codec \<times> 'e goerr option" where
  "Ws_Close L c = (let (ws, err) = Conn_Close L (ws_conn c) in (c\<lparr>ws_conn := ws\<rparr>, err))"

definition Ws_UnmarshalArgs ::
    "('v, 'e) go_types \<Rightarrow> mem \<Rightarrow> 'v birpc_message \<Rightarrow> 'v \<Rightarrow> 'v \<times> 'e goerr option" where
  "Ws_UnmarshalArgs T mm msg args = Unmarshal T mm (msg_Args msg) args"

definition Ws_UnmarshalResult ::
    "('v, 'e) go_types \<Rightarrow> mem \<Rightarrow> 'v birpc_message \<Rightarrow> 'v \<Rightarrow> 'v \<times> 'e goerr option" where
  "Ws_UnmarshalResult T mm msg result = Unmarshal T mm (msg_Result msg) result"

text \<open>\<open>ws\<close> is the codec's pointer to its connection.\<close>

definition Ws_FillArgs :: "'p \<Rightarrow> ('p, 'x) rpc_arg list \<Rightarrow> ('p, 'x) rpc_arg list \<times> 'e goerr option" where
  "Ws_FillArgs ws arglist = (fill_args ws 0 arglist, None)"

text \<open>The reader and the writer are made over nil: they are reset before every use.\<close>

definition Ws_NewCodec :: "('rd option \<Rightarrow> 's) \<Rightarrow> ('wr option \<Rightarrow> 'w) \<Rightarrow> 'ws \<Rightarrow> ('ws, 's, 'w) ws_codec" where
  "Ws_NewCodec NewReader NewWriter ws =
     \<lparr>ws_conn = ws, ws_r = NewReader None, ws_wire = new_Message, ws_w = NewWriter None\<rparr>"

definition Ws_NewEndpoint ::
    "('rd option \<Rightarrow> 's) \<Rightarrow> ('wr option \<Rightarrow> 'w) \<Rightarrow> (('ws, 's, 'w) ws_codec \<Rightarrow> 'registry \<Rightarrow> 'endpoint)
       \<Rightarrow> 'registry \<Rightarrow> 'ws \<Rightarrow> 'endpoint" where
  "Ws_NewEndpoint NewReader NewWriter birpc_NewEndpoint registry ws =
     birpc_NewEndpoint (Ws_NewCodec NewReader NewWriter ws) registry"

section \<open>What the websocket library promises\<close>

text \<open>
  \<open>incoming\<close> are the messages the connection still delivers, \<open>outgoing\<close> those it has completed,
  \<open>unclosed\<close> is how many writers the caller obtained and did not close yet. The codec closes every
  writer before it asks for the next, so nothing depends on what a connection does when it is
  asked for one while another is open.
\<close>

locale ws_writing = msgp_writing A obj W out sent
  for A :: "'e msgp_append" and obj and W :: "('w, 'e) msgp_out" and out sent +
  fixes L :: "('ws, 'rd, 'wr, 's, 'w, 'e) ws_lib"
    and outgoing :: "'ws \<Rightarrow> (int \<times> bytes) list"
    and unclosed :: "'ws \<Rightarrow> nat"
    and kind :: "'wr \<Rightarrow> int"
  assumes reset_writer: "out (Writer_Reset L w h) = [] \<and> sent (Writer_Reset L w h) = []"
    and next_writer: "NextWriter L c mt = (h, c', None) \<Longrightarrow>
      kind h = mt \<and> outgoing c' = outgoing c \<and> unclosed c' = unclosed c + 1"
    and next_writer_fails: "NextWriter L c mt = (h, c', Some e) \<Longrightarrow> unclosed c' = unclosed c"
    and close_completes: "Writer_Close L h w c = (w', c', None) \<Longrightarrow> outgoing c' = outgoing c @ [(kind h, sent w)]"
    and close_closes: "Writer_Close L h w c = (w', c', err) \<Longrightarrow> unclosed c' = unclosed c - 1"

locale ws_reading = msgp_decoding A obj S view
  for A :: "'e msgp_append" and obj and S :: "('s, bytes, 'e) msgp_in" and view +
  fixes L :: "('ws, 'rd, 'wr, 's, 'w, 'e) ws_lib"
    and incoming :: "'ws \<Rightarrow> (int \<times> bytes) list"
  assumes next_reader: "incoming c = (mt, b) # rest \<Longrightarrow>
      \<exists>h c'. NextReader L c = (mt, h, c', None) \<and> incoming c' = rest \<and> (\<forall>s. view (Reader_Reset L s h) = b)"

section \<open>Writing\<close>

text \<open>
  How a write can go on once it has its wire message \<open>am\<close>: no writer, or a writer that is closed
  after some part of the message went in, all of it if there was no error.
\<close>

definition ws_outcome ::
    "('w, 'e) msgp_out \<Rightarrow> ('ws, 'rd, 'wr, 's, 'w, 'e) ws_lib \<Rightarrow> bytes message \<Rightarrow> 'ws \<Rightarrow> 'w \<Rightarrow> 'ws \<Rightarrow> 'e goerr option \<Rightarrow> bool" where
  "ws_outcome W L am ws w ws' err \<longleftrightarrow>
     (\<exists>h e. NextWriter L ws BinaryMessage = (h, ws', Some e) \<and> err = Some e) \<or>
     (\<exists>h ws1 w2 w3 cerr. NextWriter L ws BinaryMessage = (h, ws1, None) \<and>
        Writer_Close L h w2 ws1 = (w3, ws', cerr) \<and>
        (err = None \<longrightarrow> cerr = None \<and>
          (\<exists>w1. Message_EncodeMsg W am (Writer_Reset L w h) = (w1, None) \<and> Flush W w1 = (w2, None))))"

lemma ws_outcomeE:
  assumes "ws_outcome W L am ws w ws' None"
  obtains h ws1 w1 w2 w3 where "NextWriter L ws BinaryMessage = (h, ws1, None)"
    and "Message_EncodeMsg W am (Writer_Reset L w h) = (w1, None)" and "Flush W w1 = (w2, None)"
    and "Writer_Close L h w2 ws1 = (w3, ws', None)"
  using assms by (auto simp: ws_outcome_def)

lemma Ws_WriteMessage_cases:
  assumes run: "Ws_WriteMessage T A store W L pick c st msg = (c', st', err)"
  obtains m pool' m' mm e1 where "GetMessage pick (w_pool st) = (m, pool')"
    and "ToWire T A store (w_mem st) m msg = (m', mm, e1)" and "st' = \<lparr>w_mem = mm, w_pool = PutMessage m' pool'\<rparr>"
    and "e1 \<noteq> None \<Longrightarrow> err = e1 \<and> c' = c"
    and "e1 = None \<Longrightarrow> ws_outcome W L (deref mm m') (ws_conn c) (ws_w c) (ws_conn c') err"
proof -
  obtain m pool' where g: "GetMessage pick (w_pool st) = (m, pool')" by fastforce
  obtain m' mm e1 where t: "ToWire T A store (w_mem st) m msg = (m', mm, e1)" by (metis prod_cases3)
  obtain h ws e2 where n: "NextWriter L (ws_conn c) BinaryMessage = (h, ws, e2)" by (metis prod_cases3)
  obtain w1 e3 where e: "Message_EncodeMsg W (deref mm m') (Writer_Reset L (ws_w c) h) = (w1, e3)" by fastforce
  obtain w2 e4 where f: "Flush W w1 = (w2, e4)" by fastforce
  obtain w3 ws3 e5 where c3: "Writer_Close L h w1 ws = (w3, ws3, e5)" by (metis prod_cases3)
  obtain w4 ws4 e6 where c4: "Writer_Close L h w2 ws = (w4, ws4, e6)" by (metis prod_cases3)
  note steps = run g t n e f c3 c4
  have "ws_outcome W L (deref mm m') (ws_conn c) (ws_w c) (ws_conn c') err" if e1: "e1 = None"
  proof (cases "e2 = None \<and> e3 = None \<and> e4 = None")
    case True
    with steps e1 have "ws_conn c' = ws4" "err = e6" by (auto simp: Ws_WriteMessage_def)
    with True steps show ?thesis unfolding ws_outcome_def by blast
  next
    case False
    with steps e1 have "err \<noteq> None \<and> (if e2 \<noteq> None then ws_conn c' = ws \<and> err = e2
        else ws_conn c' = (if e3 \<noteq> None then ws3 else ws4))"
      by (auto simp: Ws_WriteMessage_def)
    with False n c3 c4 show ?thesis unfolding ws_outcome_def by (auto split: if_splits)
  qed
  moreover have "st' = \<lparr>w_mem = mm, w_pool = PutMessage m' pool'\<rparr> \<and> (e1 \<noteq> None \<longrightarrow> err = e1 \<and> c' = c)"
    using steps by (auto simp: Ws_WriteMessage_def Let_def split: if_splits)
  ultimately show thesis using that [OF g t] by blast
qed

lemma websocket_sender:
  assumes W: "ws_writing A obj W out sent L outgoing unclosed kind" and store: "buffer_store store"
  shows "message_sender T A (Ws_WriteMessage T A store W L) (\<lambda>c. []) (\<lambda>c. True)
    (\<lambda>c. outgoing (ws_conn c)) (\<lambda>am. [(BinaryMessage, message_form A am)])"
proof (unfold_locales, goal_cases)
  case (1 c ss st msg pick c' st' err)
  from 1(3) obtain m pool' m' mm e1 where p: "GetMessage pick (w_pool st) = (m, pool')"
    "ToWire T A store (w_mem st) m msg = (m', mm, e1)" "st' = \<lparr>w_mem = mm, w_pool = PutMessage m' pool'\<rparr>"
    by (rule Ws_WriteMessage_cases)
  from buffer_store.to_wire_world [OF store _ 1(2) p(1,2)] 1(1) put_world p(3) show ?case by simp
next
  case (2 c ss st msg pick c' st')
  from 2(4) obtain m pool' m' mm e1 where p: "GetMessage pick (w_pool st) = (m, pool')"
    "ToWire T A store (w_mem st) m msg = (m', mm, e1)" and e1: "e1 \<noteq> None \<Longrightarrow> None = e1 \<and> c' = c"
    and w: "e1 = None \<Longrightarrow> ws_outcome W L (deref mm m') (ws_conn c) (ws_w c) (ws_conn c') None"
    by (rule Ws_WriteMessage_cases) blast
  have none: "e1 = None" using e1 by (metis option.distinct(1))
  obtain h ws w1 w2 w3 where n: "NextWriter L (ws_conn c) BinaryMessage = (h, ws, None)"
    and w: "Message_EncodeMsg W (deref mm m') (Writer_Reset L (ws_w c) h) = (w1, None)" "Flush W w1 = (w2, None)"
    and c3: "Writer_Close L h w2 ws = (w3, ws_conn c', None)"
    by (rule ws_outcomeE [OF w [OF none]])
  obtain am where am: "wire_of T A (w_mem st) msg = Inr am" "deref mm m' = am"
    using buffer_store.to_wire_world(3) [OF store _ 2(2) p] 2(1) none by (auto split: sum.splits)
  have W': "msgp_writing A obj W out sent" using W by (rule ws_writing.axioms(1))
  have "out w1 = message_form A am"
    using writesD [OF msgp_writing.Message_EncodeMsg_writes [OF W'] w(1)] am(2) ws_writing.reset_writer [OF W] by simp
  with msgp_writing.flush [OF W' w(2)] have "sent w2 = message_form A am" by simp
  with ws_writing.close_completes [OF W c3] ws_writing.next_writer [OF W n] am(1) show ?case by simp
next
  case (3 c ss st msg e pick c' st' err)
  from 3(4) obtain m pool' m' mm e1 where p: "GetMessage pick (w_pool st) = (m, pool')"
    "ToWire T A store (w_mem st) m msg = (m', mm, e1)" and e: "e1 \<noteq> None \<Longrightarrow> err = e1 \<and> c' = c"
    by (rule Ws_WriteMessage_cases) blast
  have "e1 = Some e"
    using buffer_store.to_wire_world(3) [OF store _ 3(2) p] 3(1,3) by simp
  with e show ?case by simp
qed

text \<open>Every writer that is obtained is closed again, exactly once, however the write ends.\<close>

lemma websocket_closes_writer:
  assumes W: "ws_writing A obj W out sent L outgoing unclosed kind"
    and run: "Ws_WriteMessage T A store W L pick c st msg = (c', st', err)"
  shows "unclosed (ws_conn c') = unclosed (ws_conn c)"
proof -
  obtain am e1 where "e1 \<noteq> None \<Longrightarrow> err = e1 \<and> c' = c"
    and "e1 = None \<Longrightarrow> ws_outcome W L am (ws_conn c) (ws_w c) (ws_conn c') err"
    using run by (rule Ws_WriteMessage_cases) blast
  then show ?thesis
    using ws_writing.next_writer [OF W] ws_writing.next_writer_fails [OF W] ws_writing.close_closes [OF W]
    by (cases "e1 = None") (auto simp: ws_outcome_def)
qed

section \<open>Reading\<close>

lemma websocket_receiver:
  assumes S: "ws_reading A obj S view L incoming" and store: "buffer_store store"
  shows "message_receiver obj (\<lambda>c mm msg. Some (Ws_ReadMessage L store S c mm msg)) (\<lambda>c. slices (ws_wire c))
    (\<lambda>c. True) (\<lambda>c. incoming (ws_conn c)) (\<lambda>am. [(BinaryMessage, message_form A am)])"
proof (unfold_locales, goal_cases)
  case (1 mm c ss am rest msg)
  have S': "msgp_decoding A obj S view" using S by (rule ws_reading.axioms(1))
  obtain h ws where n: "NextReader L (ws_conn c) = (BinaryMessage, h, ws, None)" "incoming ws = rest"
    "view (Reader_Reset L (ws_r c) h) = message_form A am @ []"
    using ws_reading.next_reader [OF S, of "ws_conn c"] 1(3) by fastforce
  obtain s' where s': "Message_DecodeMsg S (deref mm (ws_wire c)) (Reader_Reset L (ws_r c) h) = (am, s', None)"
    by (rule readsE [OF msgp_decoding.Message_DecodeMsg_reads [OF S' 1(4)] n(3)])
  obtain z mm1 s1 e1 where d: "Message_DecodeMsg (mem_in store S) (ws_wire c) (mm, Reader_Reset L (ws_r c) h) = (z, (mm1, s1), e1)"
    by (metis prod.collapse)
  from buffer_store.decode_with_mem [OF store 1(1) d [unfolded Message_DecodeMsg_with]] s'
  have z: "deref mm1 z = am" "s1 = s'" "e1 = None" and tr: "tracks ss (ws_wire c) mm z mm1"
    by (simp_all add: Message_DecodeMsg_with)
  obtain msg' m' mm2 where f: "FromWire mm1 msg z = (msg', m', mm2)" by (metis prod_cases3)
  note fw = from_wire_carries [OF _ f, of ss]
  have "Ws_ReadMessage L store S c mm msg = (msg', c\<lparr>ws_conn := ws, ws_wire := m', ws_r := s'\<rparr>, mm2, None)"
    using n d f z by (simp add: Ws_ReadMessage_def)
  with fw tr z n(2) show ?case by (simp add: tracks_def)
qed

text \<open>A read that fails leaves birpc's message alone and the codec able to read the next frame.\<close>

lemma websocket_read_fails:
  assumes S: "ws_reading A obj S view L incoming" and store: "buffer_store store"
    and sep: "separated mm (slices (ws_wire c) @ ss)" and inc: "incoming (ws_conn c) = f # rest"
    and run: "Ws_ReadMessage L store S c mm msg = (msg', c', mm', Some e)"
  shows "msg' = msg \<and> incoming (ws_conn c') = rest \<and> separated mm' (slices (ws_wire c') @ ss) \<and>
    (\<forall>t \<in> set ss. contents mm' t = contents mm t) \<and>
    (fst f \<noteq> BinaryMessage \<longrightarrow> e = ErrInvalidMsg \<and> mm' = mm \<and> ws_wire c' = ws_wire c)"
proof -
  obtain mt b where f: "f = (mt, b)" by fastforce
  obtain h ws where n: "NextReader L (ws_conn c) = (mt, h, ws, None)" "incoming ws = rest"
    using ws_reading.next_reader [OF S] inc f by blast
  show ?thesis
  proof (cases "mt = BinaryMessage")
    case False
    with run n have "msg' = msg" "c' = c\<lparr>ws_conn := ws\<rparr>" "mm' = mm" "e = ErrInvalidMsg"
      by (simp_all add: Ws_ReadMessage_def)
    with sep n(2) show ?thesis by simp
  next
    case True
    obtain z mm1 s1 e1 where d: "Message_DecodeMsg (mem_in store S) (ws_wire c) (mm, Reader_Reset L (ws_r c) h) = (z, (mm1, s1), e1)"
      by (metis prod.collapse)
    obtain msg2 m2 mm2 where fw: "FromWire mm1 msg z = (msg2, m2, mm2)" by (metis prod_cases3)
    have tr: "tracks ss (ws_wire c) mm z mm1"
      using buffer_store.decode_with_mem [OF store sep d [unfolded Message_DecodeMsg_with]] by simp
    have "msg' = msg" "c' = c\<lparr>ws_conn := ws, ws_wire := z, ws_r := s1\<rparr>" "mm' = mm1"
      using run n True d fw by (auto simp: Ws_ReadMessage_def Let_def split: if_splits)
    with tr n(2) f True show ?thesis by (simp add: tracks_def)
  qed
qed

lemma websocket_channel:
  assumes "ws_writing A obj W out sent L outgoing unclosed kind" and "ws_reading A obj S view L' incoming"
    and "buffer_store store"
  shows "message_channel T A (Ws_WriteMessage T A store W L) (\<lambda>c. []) (\<lambda>c. True) (\<lambda>c. outgoing (ws_conn c))
    (\<lambda>am. [(BinaryMessage, message_form A am)]) obj (\<lambda>c mm msg. Some (Ws_ReadMessage L' store S c mm msg))
    (\<lambda>c. slices (ws_wire c)) (\<lambda>c. True) (\<lambda>c. incoming (ws_conn c))"
  unfolding message_channel_def
  by (intro conjI websocket_sender [OF assms(1,3)] websocket_receiver [OF assms(2,3)])

section \<open>A reference connection\<close>

text \<open>
  A connection that has messages to deliver and room for some more, for the examples: a message
  is complete when its writer is closed, and the connection fails when there is no room left.
\<close>

record ref_ws =
  ws_in :: "(int \<times> bytes) list"
  ws_out :: "(int \<times> bytes) list"
  ws_open :: nat
  ws_room :: nat

definition ref_ws_lib :: "(ref_ws, bytes, int, bytes list, ref_writer, ref_error) ws_lib" where
  "ref_ws_lib = \<lparr>
     NextReader = (\<lambda>ws. case ws_in ws of
         [] \<Rightarrow> (- 1, [], ws, Some (Lib ErrClosed))
       | (mt, b) # rest \<Rightarrow> (mt, b, ws\<lparr>ws_in := rest\<rparr>, None)),
     Reader_Reset = (\<lambda>r b. [b]),
     NextWriter = (\<lambda>ws mt. if ws_room ws = 0 then (mt, ws, Some (Lib ErrClosed))
       else (mt, ws\<lparr>ws_open := ws_open ws + 1\<rparr>, None)),
     Writer_Reset = (\<lambda>w mt. w\<lparr>buffered := [], delivered := []\<rparr>),
     Writer_Close = (\<lambda>mt w ws. let ws = ws\<lparr>ws_open := ws_open ws - 1\<rparr> in
       if ws_room ws = 0 then (w, ws, Some (Lib ErrClosed))
       else (w, ws\<lparr>ws_out := ws_out ws @ [(mt, delivered w)], ws_room := ws_room ws - 1\<rparr>, None)),
     Conn_Close = (\<lambda>ws. (ws\<lparr>ws_in := [], ws_room := 0\<rparr>, None))\<rparr>"

interpretation ref_ws: ws_writing ref_append mp_obj ref_out ref_written delivered ref_ws_lib ws_out ws_open "\<lambda>mt. mt"
  by unfold_locales (auto simp: ref_ws_lib_def ref_written_def Let_def split: if_splits)

interpretation ref_ws: ws_reading ref_append mp_obj ref_reader concat ref_ws_lib ws_in
  by unfold_locales (auto simp: ref_ws_lib_def)

interpretation ref_ws: message_channel T ref_append "Ws_WriteMessage T ref_append (append_store grow) ref_out ref_ws_lib"
    "\<lambda>c. []" "\<lambda>c. True" "\<lambda>c. ws_out (ws_conn c)" "\<lambda>am. [(BinaryMessage, message_form ref_append am)]"
    mp_obj "\<lambda>c mm msg. Some (Ws_ReadMessage ref_ws_lib (append_store grow) ref_reader c mm msg)"
    "\<lambda>c. slices (ws_wire c)" "\<lambda>c. True" "\<lambda>c. ws_in (ws_conn c)" for T grow
  by (rule websocket_channel [OF ref_ws.ws_writing_axioms ref_ws.ws_reading_axioms go_store.buffer_store_axioms])

end
