(* ===== verification/Redis.thy ===== *)
theory Redis
  imports Codec Testmsg
begin

text \<open>
  \<open>redis/redis.go\<close>: the codec over redis pub-sub. The redis client is a parameter: the database
  'd is the client with its pool and the server behind it, a subscription and a connection are
  handles whose state is in the database. \<open>Pop\<close> blocks until the server has something for the
  subscription, so it may not return; \<open>ReadMessage\<close> loops over what it returns, and may not
  return either.
\<close>

section \<open>The redis client as a parameter\<close>

record pub_sub =
  Kind :: string
  Value :: "bytes option" \<comment> \<open>None is a nil value\<close>

record ('d, 'su, 'cn, 'e) rds_lib =
  Db_Subscription :: "'d \<Rightarrow> 'su \<times> 'd \<times> 'e goerr option"
  Sub_Subscribe :: "'su \<Rightarrow> string \<Rightarrow> 'd \<Rightarrow> 'd \<times> 'e goerr option"
  Sub_Unsubscribe :: "'su \<Rightarrow> string \<Rightarrow> 'd \<Rightarrow> 'd \<times> 'e goerr option"
  Sub_Close :: "'su \<Rightarrow> 'd \<Rightarrow> 'd \<times> 'e goerr option"
  Sub_Pop :: "'su \<Rightarrow> 'd \<Rightarrow> (pub_sub \<times> 'd \<times> 'e goerr option) option" \<comment> \<open>None: it blocks for good\<close>
  Db_Connection :: "'d \<Rightarrow> 'cn \<times> 'd \<times> 'e goerr option"
  Conn_DoInt :: "'cn \<Rightarrow> string \<Rightarrow> string \<Rightarrow> bytes \<Rightarrow> 'd \<Rightarrow> int \<times> 'd \<times> 'e goerr option"
  Conn_Return :: "'cn \<Rightarrow> 'd \<Rightarrow> 'd"

text \<open>\<open>strings.Contains\<close>\<close>

definition str_contains :: "string \<Rightarrow> string \<Rightarrow> bool" where
  "str_contains s sub \<longleftrightarrow> list_ex (\<lambda>i. take (length sub) (drop i s) = sub) [0..<Suc (length s)]"

section \<open>The codec\<close>

record ('d, 'su) rds_codec =
  rds_db :: 'd
  rds_in :: string
  rds_out :: string
  rds_sub :: "'su option"
  rds_wire :: "slice message"
  rds_buf :: slice

definition Rds_setupSubscription ::
    "('d, 'su, 'cn, 'e) rds_lib \<Rightarrow> ('d, 'su) rds_codec \<Rightarrow> ('d, 'su) rds_codec \<times> 'e goerr option" where
  "Rds_setupSubscription L c =
     (let (c, err) =
        (if rds_sub c = None then
           let (sub, db, err) = Db_Subscription L (rds_db c) in
           if err \<noteq> None then (c\<lparr>rds_db := db\<rparr>, err) else (c\<lparr>rds_db := db, rds_sub := Some sub\<rparr>, None)
         else (c, None)) in
      if err \<noteq> None then (c, err) else
      let (db, err) = Sub_Subscribe L (the (rds_sub c)) (rds_in c) (rds_db c);
          c = c\<lparr>rds_db := db\<rparr> in
      if err \<noteq> None then
        let (db, _) = Sub_Close L (the (rds_sub c)) (rds_db c) in (c\<lparr>rds_db := db, rds_sub := None\<rparr>, err)
      else (c, None))"

partial_function (option) Rds_ReadMessage ::
    "('d, 'su, 'cn, 'e) rds_lib \<Rightarrow> store \<Rightarrow> (bytes, bytes, 'e) msgp_in \<Rightarrow> ('d, 'su) rds_codec \<Rightarrow> mem
       \<Rightarrow> 'v birpc_message \<Rightarrow> ('v birpc_message \<times> ('d, 'su) rds_codec \<times> mem \<times> 'e goerr option) option" where
  "Rds_ReadMessage L store S c mm msg =
     (let (c, err) = (if rds_sub c = None then Rds_setupSubscription L c else (c, None)) in
      if err \<noteq> None then Some (msg, c, mm, err) else
      case Sub_Pop L (the (rds_sub c)) (rds_db c) of
        None \<Rightarrow> None
      | Some (result, db, err) \<Rightarrow>
          let c = c\<lparr>rds_db := db\<rparr> in
          if err \<noteq> None then Some (msg, c\<lparr>rds_sub := None\<rparr>, mm, err) else
          if \<not> str_contains (Kind result) ''message'' \<or> Value result = None then
            Rds_ReadMessage L store S c mm msg
          else
            let (wire, (mm, _), err) = Message_unmarshal (mem_in store S) (rds_wire c) (mm, the (Value result));
                c = c\<lparr>rds_wire := wire\<rparr> in
            if err \<noteq> None then Some (msg, c, mm, err) else
            let (msg, wire, mm) = FromWire mm msg (rds_wire c);
                c = c\<lparr>rds_wire := wire\<rparr>
            in Some (msg, c, mm, None))"

definition Rds_WriteMessage ::
    "('v, 'e) go_types \<Rightarrow> 'e msgp_append \<Rightarrow> store \<Rightarrow> ('d, 'su, 'cn, 'e) rds_lib \<Rightarrow> nat option
       \<Rightarrow> ('d, 'su) rds_codec \<Rightarrow> world \<Rightarrow> 'v birpc_message \<Rightarrow> ('d, 'su) rds_codec \<times> world \<times> 'e goerr option" where
  "Rds_WriteMessage T A store L pick c st msg =
     (let (m, pool) = GetMessage pick (w_pool st);
          (m, mm, err) = ToWire T A store (w_mem st) m msg;
          done = (\<lambda>mm. \<lparr>w_mem = mm, w_pool = PutMessage m pool\<rparr>) in  \<comment> \<open>deferred, on every path\<close>
      if err \<noteq> None then (c, done mm, err) else
      let (form, err) = Message_MarshalMsg A (deref mm m) [];
          (b, mm) = store mm (reslice0 (rds_buf c)) form in
      if err \<noteq> None then (c, done mm, err) else
      let c = c\<lparr>rds_buf := b\<rparr>;
          (conn, db, err) = Db_Connection L (rds_db c);
          c = c\<lparr>rds_db := db\<rparr> in
      if err \<noteq> None then (c, done mm, err) else
      let (_, db, err) = Conn_DoInt L conn ''PUBLISH'' (rds_out c) (contents mm b) (rds_db c);
          db = Conn_Return L conn db
      in (c\<lparr>rds_db := db\<rparr>, done mm, err))"

definition Rds_Close ::
    "('d, 'su, 'cn, 'e) rds_lib \<Rightarrow> ('d, 'su) rds_codec \<Rightarrow> ('d, 'su) rds_codec \<times> 'e goerr option" where
  "Rds_Close L c =
     (case rds_sub c of
        None \<Rightarrow> (c, None)
      | Some sub \<Rightarrow>
          let (db, err) = Sub_Unsubscribe L sub (rds_in c) (rds_db c);
              (db, cerr) = Sub_Close L sub db;
              err = (if err = None then cerr else err)
          in (c\<lparr>rds_db := db, rds_sub := None\<rparr>, err))"

definition Rds_UnmarshalArgs ::
    "('v, 'e) go_types \<Rightarrow> mem \<Rightarrow> 'v birpc_message \<Rightarrow> 'v \<Rightarrow> 'v \<times> 'e goerr option" where
  "Rds_UnmarshalArgs T mm msg args = Unmarshal T mm (msg_Args msg) args"

definition Rds_UnmarshalResult ::
    "('v, 'e) go_types \<Rightarrow> mem \<Rightarrow> 'v birpc_message \<Rightarrow> 'v \<Rightarrow> 'v \<times> 'e goerr option" where
  "Rds_UnmarshalResult T mm msg result = Unmarshal T mm (msg_Result msg) result"

text \<open>\<open>db\<close> is the codec's pointer to its database.\<close>

definition Rds_FillArgs :: "'p \<Rightarrow> ('p, 'x) rpc_arg list \<Rightarrow> ('p, 'x) rpc_arg list \<times> 'e goerr option" where
  "Rds_FillArgs db arglist = (fill_args db 0 arglist, None)"

definition Rds_NewCodec :: "'d \<Rightarrow> string \<Rightarrow> string \<Rightarrow> ('d, 'su) rds_codec" where
  "Rds_NewCodec db subscribe publish =
     \<lparr>rds_db = db, rds_in = subscribe, rds_out = publish, rds_sub = None, rds_wire = new_Message, rds_buf = SliceNil\<rparr>"

definition Rds_NewEndpoint ::
    "(('d, 'su) rds_codec \<Rightarrow> 'registry \<Rightarrow> 'endpoint) \<Rightarrow> 'registry \<Rightarrow> 'd \<Rightarrow> string \<Rightarrow> string \<Rightarrow> 'endpoint" where
  "Rds_NewEndpoint birpc_NewEndpoint registry db subscribe publish =
     birpc_NewEndpoint (Rds_NewCodec db subscribe publish) registry"

section \<open>What the redis client promises\<close>

text \<open>
  \<open>published\<close> is what each channel was sent, \<open>borrowed\<close> how many connections are out of the
  client's pool; \<open>queue\<close> is what the server has for a subscription. A subscription that was just
  made has nothing but confirmations waiting.
\<close>

definition is_message :: "pub_sub \<Rightarrow> bool" where
  "is_message ev \<longleftrightarrow> str_contains (Kind ev) ''message'' \<and> Value ev \<noteq> None"

definition payloads :: "pub_sub list \<Rightarrow> bytes list" where
  "payloads evs = map (\<lambda>ev. the (Value ev)) (filter is_message evs)"

locale rds_writing = msgp_encoding A obj
  for A :: "'e msgp_append" and obj +
  fixes L :: "('d, 'su, 'cn, 'e) rds_lib"
    and published :: "'d \<Rightarrow> string \<Rightarrow> bytes list"
    and borrowed :: "'d \<Rightarrow> nat"
  assumes connection: "Db_Connection L d = (cn, d', None) \<Longrightarrow> borrowed d' = borrowed d + 1 \<and> published d' = published d"
    and connection_fails: "Db_Connection L d = (cn, d', Some e) \<Longrightarrow> borrowed d' = borrowed d"
    and do_publish: "Conn_DoInt L cn ''PUBLISH'' ch b d = (n, d', None) \<Longrightarrow>
      published d' = (published d)(ch := published d ch @ [b])"
    and do_keeps: "Conn_DoInt L cn cmd ch b d = (n, d', err) \<Longrightarrow> borrowed d' = borrowed d"
    and conn_return: "borrowed (Conn_Return L cn d) = borrowed d - 1 \<and> published (Conn_Return L cn d) = published d"

locale rds_reading = msgp_decoding A obj S "\<lambda>s. s"
  for A :: "'e msgp_append" and obj and S :: "(bytes, bytes, 'e) msgp_in" +
  fixes L :: "('d, 'su, 'cn, 'e) rds_lib"
    and queue :: "'d \<Rightarrow> 'su \<Rightarrow> pub_sub list"
  assumes pop: "queue d su = ev # rest \<Longrightarrow> \<exists>d'. Sub_Pop L su d = Some (ev, d', None) \<and> queue d' su = rest"

section \<open>Writing\<close>

text \<open>
  How a write goes on with the wire message \<open>m'\<close> in store \<open>mm\<close>: it is marshaled into the
  codec's buffer, and published over a borrowed connection.
\<close>

definition rds_outcome ::
    "'e msgp_append \<Rightarrow> store \<Rightarrow> ('d, 'su, 'cn, 'e) rds_lib \<Rightarrow> mem \<Rightarrow> bytes message \<Rightarrow> ('d, 'su) rds_codec
       \<Rightarrow> ('d, 'su) rds_codec \<Rightarrow> mem \<Rightarrow> 'e goerr option \<Rightarrow> bool" where
  "rds_outcome A store L mm am c c' mm' err \<longleftrightarrow>
     (\<exists>b db. store mm (reslice0 (rds_buf c)) (message_form A am) = (b, mm') \<and> c' = c\<lparr>rds_buf := b, rds_db := db\<rparr> \<and>
       ((\<exists>cn e. Db_Connection L (rds_db c) = (cn, db, Some e) \<and> err = Some e) \<or>
        (\<exists>cn db1 n db2. Db_Connection L (rds_db c) = (cn, db1, None) \<and>
          Conn_DoInt L cn ''PUBLISH'' (rds_out c) (contents mm' b) db1 = (n, db2, err) \<and> db = Conn_Return L cn db2)))"

lemma Rds_WriteMessage_cases:
  assumes A: "msgp_encoding A obj" and run: "Rds_WriteMessage T A store L pick c st msg = (c', st', err)"
  obtains m pool' m' mm e1 mm' where "GetMessage pick (w_pool st) = (m, pool')"
    and "ToWire T A store (w_mem st) m msg = (m', mm, e1)" and "st' = \<lparr>w_mem = mm', w_pool = PutMessage m' pool'\<rparr>"
    and "e1 \<noteq> None \<Longrightarrow> err = e1 \<and> c' = c \<and> mm' = mm"
    and "e1 = None \<Longrightarrow> rds_outcome A store L mm (deref mm m') c c' mm' err"
proof -
  obtain m pool' where g: "GetMessage pick (w_pool st) = (m, pool')" by fastforce
  obtain m' mm e1 where t: "ToWire T A store (w_mem st) m msg = (m', mm, e1)" by (metis prod_cases3)
  obtain b mm1 where s: "store mm (reslice0 (rds_buf c)) (message_form A (deref mm m')) = (b, mm1)" by fastforce
  obtain cn db e2 where n: "Db_Connection L (rds_db c) = (cn, db, e2)" by (metis prod_cases3)
  obtain k db2 e3 where d: "Conn_DoInt L cn ''PUBLISH'' (rds_out c) (contents mm1 b) db = (k, db2, e3)" by (metis prod_cases3)
  have enc: "Message_MarshalMsg A (deref mm m') [] = (message_form A (deref mm m'), None)"
    by (simp add: msgp_encoding.Message_MarshalMsg_form [OF A])
  note steps = run g t s n d enc
  let ?mm' = "if e1 = None then mm1 else mm"
  have "rds_outcome A store L mm (deref mm m') c c' ?mm' err" if "e1 = None"
    using steps that by (cases e2) (auto simp: Rds_WriteMessage_def rds_outcome_def Let_def)
  moreover have "st' = \<lparr>w_mem = ?mm', w_pool = PutMessage m' pool'\<rparr> \<and> (e1 \<noteq> None \<longrightarrow> err = e1 \<and> c' = c)"
    using steps by (auto simp: Rds_WriteMessage_def Let_def split: if_splits)
  ultimately show thesis by (intro that [OF g t, of ?mm']) auto
qed

lemma rds_store_world:
  assumes store: "buffer_store store" and sep: "separated mm (slices m' @ concat (map slices pool') @ rds_buf c # ss)"
    and out: "rds_outcome A store L mm am c c' mm' err"
  shows "separated mm' (slices m' @ concat (map slices pool') @ rds_buf c' # ss)"
    and "\<forall>t \<in> set ss. contents mm' t = contents mm t" and "contents mm' (rds_buf c') = message_form A am"
proof -
  obtain b db where b: "store mm (reslice0 (rds_buf c)) (message_form A am) = (b, mm')" "c' = c\<lparr>rds_buf := b, rds_db := db\<rparr>"
    using out by (auto simp: rds_outcome_def)
  let ?rest = "slices m' @ concat (map slices pool') @ ss"
  have "separated mm (rds_buf c # ?rest)" by (rule separated_msetD [OF sep]) simp
  then have "separated mm (reslice0 (rds_buf c) # ?rest)" by (rule separated_reslice0)
  note w = buffer_store.store_separated [OF store this b(1)]
  then have "separated mm' (b # ?rest)" by blast
  then show "separated mm' (slices m' @ concat (map slices pool') @ rds_buf c' # ss)"
    by (rule separated_msetD) (simp add: b(2))
  show "\<forall>t \<in> set ss. contents mm' t = contents mm t" "contents mm' (rds_buf c') = message_form A am"
    using w by (simp_all add: b(2))
qed

text \<open>A whole write: the codec's buffer stays its own, and what happened is decided by \<open>wire_of\<close>.\<close>

lemma redis_write:
  assumes A: "msgp_encoding A obj" and store: "buffer_store store"
    and ok: "world_ok (rds_buf c # ss) st" and payloads: "set (payload_slices msg) \<subseteq> set ss"
    and run: "Rds_WriteMessage T A store L pick c st msg = (c', st', err)"
  shows "world_ok (rds_buf c' # ss) st'" and "\<forall>t \<in> set ss. contents (w_mem st') t = contents (w_mem st) t"
    and "wire_of T A (w_mem st) msg = Inl e \<Longrightarrow> err = Some e \<and> c' = c"
    and "wire_of T A (w_mem st) msg = Inr am \<Longrightarrow>
      contents (w_mem st') (rds_buf c') = message_form A am \<and> (\<exists>mm. rds_outcome A store L mm am c c' (w_mem st') err)"
proof -
  have sub: "set (payload_slices msg) \<subseteq> set (rds_buf c # ss)" using payloads by auto
  from run obtain m pool' m' mm e1 mm' where p: "GetMessage pick (w_pool st) = (m, pool')"
      "ToWire T A store (w_mem st) m msg = (m', mm, e1)"
    and st': "st' = \<lparr>w_mem = mm', w_pool = PutMessage m' pool'\<rparr>"
    and refused: "e1 \<noteq> None \<Longrightarrow> err = e1 \<and> c' = c \<and> mm' = mm"
    and sent: "e1 = None \<Longrightarrow> rds_outcome A store L mm (deref mm m') c c' mm' err"
    by (rule Rds_WriteMessage_cases [OF A]) blast
  note w = buffer_store.to_wire_world [OF store ok sub p]
  note s = rds_store_world [OF store w(1) sent]
  have "separated mm' (slices m' @ concat (map slices pool') @ rds_buf c' # ss) \<and> (\<forall>t \<in> set ss. contents mm' t = contents mm t)"
    using s(1,2) w(1) refused by (cases "e1 = None") simp_all
  with w(2) put_world st'
  show "world_ok (rds_buf c' # ss) st'" "\<forall>t \<in> set ss. contents (w_mem st') t = contents (w_mem st) t" by simp_all
  show "err = Some e \<and> c' = c" if "wire_of T A (w_mem st) msg = Inl e" using w(3) that refused by simp
  show "contents (w_mem st') (rds_buf c') = message_form A am \<and> (\<exists>mm. rds_outcome A store L mm am c c' (w_mem st') err)"
    if "wire_of T A (w_mem st) msg = Inr am" using w(3) that s(3) sent st' by auto
qed

lemma redis_sender:
  assumes R: "rds_writing A obj L published borrowed" and store: "buffer_store store"
  shows "message_sender T A (Rds_WriteMessage T A store L) (\<lambda>c. [rds_buf c]) (\<lambda>c. True)
    (\<lambda>c. published (rds_db c) (rds_out c)) (\<lambda>am. [message_form A am])"
proof (unfold_locales, goal_cases)
  case (1 c ss st msg pick c' st' err)
  show ?case using redis_write(1,2) [OF rds_writing.axioms(1) [OF R] store 1(1) [simplified] 1(2,3)] by simp
next
  case (2 c ss st msg pick c' st')
  note w = redis_write(3,4) [OF rds_writing.axioms(1) [OF R] store 2(1) [simplified] 2(2,4)]
  obtain am where am: "wire_of T A (w_mem st) msg = Inr am" using w(1) by (cases "wire_of T A (w_mem st) msg") auto
  obtain mm b db cn db1 n db2 where o: "c' = c\<lparr>rds_buf := b, rds_db := db\<rparr>" "Db_Connection L (rds_db c) = (cn, db1, None)"
    "Conn_DoInt L cn ''PUBLISH'' (rds_out c) (contents (w_mem st') b) db1 = (n, db2, None)" "db = Conn_Return L cn db2"
    using w(2) [OF am] by (auto simp: rds_outcome_def)
  with am w(2) [OF am] rds_writing.do_publish [OF R o(3)] rds_writing.connection [OF R o(2)] rds_writing.conn_return [OF R]
  show ?case by simp
next
  case (3 c ss st msg e pick c' st' err)
  show ?case using redis_write(3) [OF rds_writing.axioms(1) [OF R] store 3(1) [simplified] 3(2,4,3)] .
qed

text \<open>Every connection that is taken out of the pool goes back, however the write ends.\<close>

lemma redis_returns_connection:
  assumes R: "rds_writing A obj L published borrowed"
    and run: "Rds_WriteMessage T A store L pick c st msg = (c', st', err)"
  shows "borrowed (rds_db c') = borrowed (rds_db c)"
proof -
  obtain mm am mm' e1 where "e1 \<noteq> None \<Longrightarrow> err = e1 \<and> c' = c \<and> mm' = mm"
    and "e1 = None \<Longrightarrow> rds_outcome A store L mm am c c' mm' err"
    using Rds_WriteMessage_cases [OF rds_writing.axioms(1) [OF R] run] by metis
  then show ?thesis
    using rds_writing.connection [OF R] rds_writing.connection_fails [OF R] rds_writing.do_keeps [OF R]
      rds_writing.conn_return [OF R]
    by (cases "e1 = None") (auto simp: rds_outcome_def)
qed

section \<open>Reading\<close>

text \<open>One round of the loop, by what \<open>Pop\<close> returns.\<close>

lemma Rds_ReadMessage_skip:
  assumes "rds_sub c = Some sub" and "Sub_Pop L sub (rds_db c) = Some (ev, db, None)" and "\<not> is_message ev"
  shows "Rds_ReadMessage L store S c mm msg = Rds_ReadMessage L store S (c\<lparr>rds_db := db\<rparr>) mm msg"
  using assms by (subst Rds_ReadMessage.simps) (auto simp: is_message_def)

lemma Rds_ReadMessage_message:
  assumes "rds_sub c = Some sub" and "Sub_Pop L sub (rds_db c) = Some (ev, db, None)" and "is_message ev"
    and "Message_unmarshal (mem_in store S) (rds_wire c) (mm, the (Value ev)) = (z, (mm1, s1), None)"
    and "FromWire mm1 msg z = (msg', m', mm2)"
  shows "Rds_ReadMessage L store S c mm msg = Some (msg', c\<lparr>rds_db := db, rds_wire := m'\<rparr>, mm2, None)"
  using assms by (subst Rds_ReadMessage.simps) (auto simp: is_message_def)

text \<open>
  What a read still has to do once its \<open>Pop\<close> returned. \<open>Close\<close> does not take \<open>rmu\<close>, so it may have
  run in between, and the codec be another than the one the read began with.
\<close>

definition Rds_after_pop ::
    "('d, 'su, 'cn, 'e) rds_lib \<Rightarrow> store \<Rightarrow> (bytes, bytes, 'e) msgp_in \<Rightarrow> ('d, 'su) rds_codec \<Rightarrow> mem
       \<Rightarrow> 'v birpc_message \<Rightarrow> pub_sub \<times> 'd \<times> 'e goerr option
       \<Rightarrow> ('v birpc_message \<times> ('d, 'su) rds_codec \<times> mem \<times> 'e goerr option) option" where
  "Rds_after_pop L store S c mm msg = (\<lambda>(result, db, err).
     let c = c\<lparr>rds_db := db\<rparr> in
     if err \<noteq> None then Some (msg, c\<lparr>rds_sub := None\<rparr>, mm, err) else
     if \<not> str_contains (Kind result) ''message'' \<or> Value result = None then
       Rds_ReadMessage L store S c mm msg
     else
       let (wire, (mm, _), err) = Message_unmarshal (mem_in store S) (rds_wire c) (mm, the (Value result));
           c = c\<lparr>rds_wire := wire\<rparr> in
       if err \<noteq> None then Some (msg, c, mm, err) else
       let (msg, wire, mm) = FromWire mm msg (rds_wire c);
           c = c\<lparr>rds_wire := wire\<rparr>
       in Some (msg, c, mm, None))"

lemma Rds_ReadMessage_at_pop:
  assumes "rds_sub c = Some sub"
  shows "Rds_ReadMessage L store S c mm msg =
    (case Sub_Pop L sub (rds_db c) of None \<Rightarrow> None | Some r \<Rightarrow> Rds_after_pop L store S c mm msg r)"
  using assms by (subst Rds_ReadMessage.simps) (simp add: Rds_after_pop_def case_prod_unfold Let_def split: option.split)

lemma Rds_ReadMessage_subscribes:
  assumes "rds_sub c = None" and "Rds_setupSubscription L c = (c', None)"
  shows "rds_sub c' \<noteq> None" and "Rds_ReadMessage L store S c mm msg = Rds_ReadMessage L store S c' mm msg"
proof -
  show c': "rds_sub c' \<noteq> None"
    using assms by (auto simp: Rds_setupSubscription_def Let_def split: prod.splits if_splits)
  show "Rds_ReadMessage L store S c mm msg = Rds_ReadMessage L store S c' mm msg"
    unfolding Rds_ReadMessage.simps [of L store S c mm msg] Rds_ReadMessage.simps [of L store S c' mm msg]
    using assms c' by auto
qed

lemma redis_receiver:
  assumes R: "rds_reading A obj S L queue" and store: "buffer_store store"
  shows "message_receiver obj (Rds_ReadMessage L store S) (\<lambda>c. slices (rds_wire c)) (\<lambda>c. rds_sub c \<noteq> None)
    (\<lambda>c. payloads (queue (rds_db c) (the (rds_sub c)))) (\<lambda>am. [message_form A am])"
proof (unfold_locales, goal_cases)
  case (1 mm c ss am rest msg)
  have S: "msgp_decoding A obj S (\<lambda>s. s)" using R by (rule rds_reading.axioms(1))
  obtain sub where sub: "rds_sub c = Some sub" using 1(2) by auto
  have "\<exists>msg' c' mm'. Rds_ReadMessage L store S c mm msg = Some (msg', c', mm', None) \<and> rds_sub c' = Some sub \<and>
      payloads (queue (rds_db c') sub) = rest \<and> carries mm' msg' am \<and>
      separated mm' (slices (rds_wire c') @ payload_slices msg' @ ss) \<and> (\<forall>t \<in> set ss. contents mm' t = contents mm t)"
    if "queue (rds_db c) sub = evs" "payloads evs = message_form A am # rest" "rds_sub c = Some sub"
      "separated mm (slices (rds_wire c) @ ss)" for evs c
    using that
  proof (induction evs arbitrary: c)
    case Nil
    then show ?case by (simp add: payloads_def)
  next
    case (Cons ev evs)
    obtain db where pop: "Sub_Pop L sub (rds_db c) = Some (ev, db, None)" "queue db sub = evs"
      using rds_reading.pop [OF R Cons.prems(1)] by blast
    show ?case
    proof (cases "is_message ev")
      case False
      with Cons.prems(2) have "payloads evs = message_form A am # rest" by (simp add: payloads_def)
      with Cons.IH [of "c\<lparr>rds_db := db\<rparr>"] Cons.prems(3,4) pop(2)
      show ?thesis by (simp add: Rds_ReadMessage_skip [OF Cons.prems(3) pop(1) False])
    next
      case True
      with Cons.prems(2) have v: "the (Value ev) = message_form A am" "payloads evs = rest" by (simp_all add: payloads_def)
      obtain s' where s': "Message_unmarshal S (deref mm (rds_wire c)) (message_form A am) = (am, s', None)"
        using readsE [OF msgp_decoding.Message_unmarshal_reads [OF S 1(4)], of "message_form A am" "[]"] by auto
      obtain z mm1 s1 e1 where d: "Message_unmarshal (mem_in store S) (rds_wire c) (mm, message_form A am) = (z, (mm1, s1), e1)"
        by (metis prod.collapse)
      from buffer_store.decode_with_mem [OF store Cons.prems(4) d [unfolded Message_unmarshal_with]] s'
      have z: "deref mm1 z = am" "e1 = None" and tr: "tracks ss (rds_wire c) mm z mm1"
        by (simp_all add: Message_unmarshal_with)
      obtain msg' m' mm2 where f: "FromWire mm1 msg z = (msg', m', mm2)" by (metis prod_cases3)
      note fw = from_wire_carries [OF _ f, of ss]
      have "Rds_ReadMessage L store S c mm msg = Some (msg', c\<lparr>rds_db := db, rds_wire := m'\<rparr>, mm2, None)"
        using Rds_ReadMessage_message [OF Cons.prems(3) pop(1) True _ f] d z(2) v(1) by simp
      with fw tr z v(2) pop(2) Cons.prems(3) show ?thesis by (simp add: tracks_def)
    qed
  qed
  from this [OF refl _ sub 1(1)] 1(3) sub show ?case by auto
qed

lemma redis_channel:
  assumes "rds_writing A obj L published borrowed" and "rds_reading A obj S L' queue" and "buffer_store store"
  shows "message_channel T A (Rds_WriteMessage T A store L) (\<lambda>c. [rds_buf c]) (\<lambda>c. True)
    (\<lambda>c. published (rds_db c) (rds_out c)) (\<lambda>am. [message_form A am]) obj (Rds_ReadMessage L' store S)
    (\<lambda>c. slices (rds_wire c)) (\<lambda>c. rds_sub c \<noteq> None) (\<lambda>c. payloads (queue (rds_db c) (the (rds_sub c))))"
  unfolding message_channel_def
  by (intro conjI redis_sender [OF assms(1,3)] redis_receiver [OF assms(2,3)])

section \<open>A reference server\<close>

text \<open>
  A redis client and server for the examples: what was published on a channel, the events that
  wait for the one subscription, the connections that are out and how many more there are.
\<close>

record ref_redis =
  rd_published :: "(string \<times> bytes) list"
  rd_events :: "pub_sub list"
  rd_borrowed :: nat
  rd_free :: nat
  rd_subscribed :: "string list"

definition confirmation :: "string \<Rightarrow> pub_sub" where
  "confirmation kind = \<lparr>Kind = kind, Value = None\<rparr>"

definition ref_published :: "ref_redis \<Rightarrow> string \<Rightarrow> bytes list" where
  "ref_published d ch = map snd (filter (\<lambda>p. fst p = ch) (rd_published d))"

definition ref_rds_lib :: "(ref_redis, unit, unit, ref_error) rds_lib" where
  "ref_rds_lib = \<lparr>
     Db_Subscription = (\<lambda>d. if rd_free d = 0 then ((), d, Some (Lib ErrClosed)) else ((), d\<lparr>rd_free := rd_free d - 1\<rparr>, None)),
     Sub_Subscribe = (\<lambda>su ch d. if ch = '''' then (d, Some (Lib ErrRange)) else
       (d\<lparr>rd_events := rd_events d @ [confirmation ''subscribe''], rd_subscribed := ch # rd_subscribed d\<rparr>, None)),
     Sub_Unsubscribe = (\<lambda>su ch d.
       (d\<lparr>rd_events := rd_events d @ [confirmation ''unsubscribe''], rd_subscribed := removeAll ch (rd_subscribed d)\<rparr>, None)),
     Sub_Close = (\<lambda>su d. (d\<lparr>rd_free := rd_free d + 1\<rparr>, None)),
     Sub_Pop = (\<lambda>su d. case rd_events d of [] \<Rightarrow> None | ev # evs \<Rightarrow> Some (ev, d\<lparr>rd_events := evs\<rparr>, None)),
     Db_Connection = (\<lambda>d. if rd_free d = 0 then ((), d, Some (Lib ErrClosed))
       else ((), d\<lparr>rd_borrowed := rd_borrowed d + 1, rd_free := rd_free d - 1\<rparr>, None)),
     Conn_DoInt = (\<lambda>cn cmd ch b d. if cmd = ''PUBLISH'' \<and> ch \<noteq> ''''
       then (1, d\<lparr>rd_published := rd_published d @ [(ch, b)]\<rparr>, None) else (0, d, Some (Lib ErrRange))),
     Conn_Return = (\<lambda>cn d. d\<lparr>rd_borrowed := rd_borrowed d - 1, rd_free := rd_free d + 1\<rparr>)\<rparr>"

interpretation ref_rds: rds_writing ref_append mp_obj ref_rds_lib ref_published rd_borrowed
  by unfold_locales (auto simp: ref_rds_lib_def ref_published_def fun_eq_iff split: if_splits)

interpretation ref_rds: rds_reading ref_append mp_obj ref_in ref_rds_lib "\<lambda>d su. rd_events d"
  by unfold_locales (auto simp: ref_rds_lib_def)

interpretation ref_rds: message_channel T ref_append "Rds_WriteMessage T ref_append (append_store grow) ref_rds_lib"
    "\<lambda>c. [rds_buf c]" "\<lambda>c. True" "\<lambda>c. ref_published (rds_db c) (rds_out c)" "\<lambda>am. [message_form ref_append am]"
    mp_obj "Rds_ReadMessage ref_rds_lib (append_store grow) ref_in" "\<lambda>c. slices (rds_wire c)" "\<lambda>c. rds_sub c \<noteq> None"
    "\<lambda>c. payloads (rd_events (rds_db c))" for T grow
  by (rule redis_channel [OF ref_rds.rds_writing_axioms ref_rds.rds_reading_axioms go_store.buffer_store_axioms])

end
