(* ===== verification/Writers.thy ===== *)
theory Writers
  imports Critical Generic Websocket Redis Samples
begin

text \<open>
  Several goroutines in \<open>WriteMessage\<close> of one codec. Theories \<open>Generic\<close>, \<open>Websocket\<close> and \<open>Redis\<close>
  take a whole call as one step; here the part under \<open>wmu\<close> is taken apart into its single calls,
  the writes of the encoder included, and runs under the scheduler of theory \<open>Critical\<close>. Lemmas
  \<open>gen_section_run\<close>, \<open>ws_section_run\<close> and \<open>rds_section_run\<close> show that the single calls, made in
  one go, are what the three theories have. What comes before the lock works on the caller's own
  wire message: \<open>to_wire_functional\<close> says what it leaves there.
\<close>

section \<open>The encoder, write by write\<close>

type_synonym ('w, 'e) writer_op = "'w \<Rightarrow> 'w \<times> 'e goerr option"

definition in_ctx :: "string list \<Rightarrow> ('w, 'e) writer_op \<Rightarrow> ('w, 'e) writer_op" where
  "in_ctx cs f w = (let (w, err) = f w in (w, wrap err cs))"

definition encode_ops :: "('w, 'e) msgp_out \<Rightarrow> bytes message \<Rightarrow> ('w, 'e) writer_op list" where
  "encode_ops W z =
     [\<lambda>en. Append W en [0x95],
      in_ctx [''ID''] (\<lambda>en. WriteUint64 W en (ID z)),
      in_ctx [''Func''] (\<lambda>en. WriteString W en (Func z)),
      in_ctx [''Args''] (Raw_EncodeMsg W (Args z)),
      in_ctx [''Result''] (Raw_EncodeMsg W (Result z))] @
     (case Error z of
        None \<Rightarrow> [WriteNil W]
      | Some e \<Rightarrow> [\<lambda>en. Append W en [0x91], in_ctx [''Error'', ''Msg''] (\<lambda>en. WriteString W en (Msg e))])"

text \<open>What \<open>WriteMessage\<close> does between \<open>Lock\<close> and \<open>Unlock\<close>.\<close>

definition write_ops :: "('w, 'e) msgp_out \<Rightarrow> bytes message \<Rightarrow> ('w, 'e) writer_op list" where
  "write_ops W z = encode_ops W z @ [Flush W]"

primrec run_ops :: "('w, 'e) writer_op list \<Rightarrow> ('w, 'e) writer_op" where
  "run_ops [] w = (w, None)"
| "run_ops (f # fs) w = (let (w, err) = f w in if err \<noteq> None then (w, err) else run_ops fs w)"

lemma run_ops_append:
  "run_ops (fs @ gs) w = (let (w, err) = run_ops fs w in if err \<noteq> None then (w, err) else run_ops gs w)"
  by (induction fs arbitrary: w) (auto split: prod.splits)

lemma run_encode_ops: "run_ops (encode_ops W z) w = Message_EncodeMsg W z w"
  by (cases "Error z") (simp_all add: encode_ops_def in_ctx_def Message_EncodeMsg_def Let_def case_prod_beta)

lemma locked_section:
  "run_ops (write_ops W z) w =
     (let (w, err) = Message_EncodeMsg W z w in if err \<noteq> None then (w, err) else Flush W w)"
  by (auto simp: write_ops_def run_ops_append run_encode_ops split: prod.split)

text \<open>What each of the writes adds.\<close>

definition op_forms :: "'e msgp_append \<Rightarrow> bytes message \<Rightarrow> bytes list" where
  "op_forms A z =
     [[0x95], AppendUint64 A [] (ID z), AppendString A [] (Func z), raw_form (Args z), raw_form (Result z)] @
     (case Error z of None \<Rightarrow> [[nil_byte]] | Some e \<Rightarrow> [[0x91], AppendString A [] (Msg e)]) @ [[]]"

lemma concat_op_forms: "concat (op_forms A z) = message_form A z"
  by (simp add: op_forms_def message_form_def error_form_def split: option.split)

lemma length_op_forms: "length (op_forms A z) = length (write_ops W z)"
  by (simp add: op_forms_def write_ops_def encode_ops_def split: option.split)

lemma writes_in_ctx: "writes out f enc \<Longrightarrow> writes out (in_ctx cs f) enc"
  by (auto simp: writes_def in_ctx_def split: prod.splits)

context msgp_writing
begin

lemma write_ops_write: "list_all2 (writes out) (write_ops W z) (op_forms A z)"
proof -
  have "writes out (Flush W) []" using flush by (auto simp: writes_def)
  then show ?thesis
    by (auto simp: write_ops_def encode_ops_def op_forms_def split: option.split
        intro: writes_in_ctx write_bytes write_uint64 write_string write_raw write_nil)
qed

lemma write_op:
  assumes "n < length (write_ops W z)" and "(write_ops W z ! n) w = (w', None)"
    and "out w = b @ concat (take n (op_forms A z))"
  shows "out w' = b @ concat (take (Suc n) (op_forms A z))"
    and "Suc n = length (write_ops W z) \<Longrightarrow> sent w' = out w'"
proof -
  have n: "n < length (op_forms A z)" using assms(1) by (simp add: length_op_forms [of A z W])
  have "writes out (write_ops W z ! n) (op_forms A z ! n)"
    using list_all2_nthD [OF write_ops_write assms(1)] .
  with assms(2,3) show "out w' = b @ concat (take (Suc n) (op_forms A z))"
    using n by (simp add: writes_def take_Suc_conv_app_nth)
  assume "Suc n = length (write_ops W z)"
  then have "write_ops W z ! n = Flush W" by (simp add: write_ops_def nth_append)
  with assms(2) flush show "sent w' = out w'" by simp
qed

end


section \<open>The generic codec\<close>

text \<open>
  A caller's own state is its wire message and the error it has met; after an error the rest of
  its section is passed over.
\<close>

definition unless_failed :: "('w, 'e) writer_op \<Rightarrow> ('w, bytes message \<times> 'e goerr option) stmt" where
  "unless_failed f = (\<lambda>(w, am, err). if err \<noteq> None then (w, am, err) else let (w, err) = f w in (w, am, err))"

definition gen_section ::
    "('w, 'e) msgp_out \<Rightarrow> bytes message \<times> 'e goerr option \<Rightarrow> ('w, bytes message \<times> 'e goerr option) stmt list" where
  "gen_section W l = map unless_failed (write_ops W (fst l))"

lemma unless_failed_simps [simp]:
  "unless_failed f (w, am, Some e) = (w, am, Some e)"
  "unless_failed f (w, am, None) = (let (w, err) = f w in (w, am, err))"
  by (simp_all add: unless_failed_def)

lemma run_failed: "run_stmts (map unless_failed fs) (w, am, Some e) = (w, am, Some e)"
  by (induction fs) simp_all

lemma run_unless_failed: "run_stmts (map unless_failed fs) (w, am, None) = (let (w, err) = run_ops fs w in (w, am, err))"
proof (induction fs arbitrary: w)
  case (Cons f fs)
  obtain w' e where "f w = (w', e)" by fastforce
  with Cons run_failed show ?case by (cases e) simp_all
qed simp

lemma gen_section_run:
  "Gen_WriteMessage T A store W pick c st msg =
     (let (m, pool) = GetMessage pick (w_pool st);
          (m, mm, err) = ToWire T A store (w_mem st) m msg;
          st = \<lparr>w_mem = mm, w_pool = PutMessage m pool\<rparr> in
      if err \<noteq> None then (c, st, err) else
      let l = (deref mm m, None);
          (w, _, err) = run_stmts (gen_section W l) (gen_w c, l)
      in (c\<lparr>gen_w := w\<rparr>, st, err))"
  by (auto simp: Gen_WriteMessage_def gen_section_def run_unless_failed locked_section Let_def split: prod.split)

context msgp_writing
begin

lemma gen_section_sends:
  assumes "run_stmts (gen_section W (am, None)) (w, am, None) = (w', l)" and "out w = b" and "sent w = b" and "snd l = None"
  shows "out w' = b @ message_form A am" and "sent w' = b @ message_form A am"
proof -
  obtain w1 where w: "Message_EncodeMsg W am w = (w1, None)" "Flush W w1 = (w', None)"
    using assms(1,4) by (auto simp: gen_section_def run_unless_failed locked_section split: prod.splits if_splits)
  from writesD [OF Message_EncodeMsg_writes w(1)] flush [OF w(2)] assms(2)
  show "out w' = b @ message_form A am" "sent w' = b @ message_form A am" by simp_all
qed

lemma gen_in_turn:
  "in_turn (gen_section W) (map (\<lambda>am. (am, None)) ams) order w = (w', rs) \<Longrightarrow> set order \<subseteq> {..<length ams} \<Longrightarrow>
   list_all (\<lambda>(i, l). snd l = None) rs \<Longrightarrow> out w = b \<Longrightarrow> sent w = b \<Longrightarrow>
   sent w' = b @ concat (map (\<lambda>i. message_form A (ams ! i)) order)"
proof (induction order arbitrary: w rs b)
  case (Cons i order)
  obtain w1 l where r: "run_stmts (gen_section W (ams ! i, None)) (w, ams ! i, None) = (w1, l)" by (metis surj_pair)
  obtain rs' where rest: "in_turn (gen_section W) (map (\<lambda>am. (am, None)) ams) order w1 = (w', rs')" "rs = (i, l) # rs'"
    using Cons.prems(1,2) r by (auto split: prod.splits)
  have ok: "snd l = None" "list_all (\<lambda>(i, l). snd l = None) rs'" using Cons.prems(3) rest(2) by simp_all
  note s = gen_section_sends [OF r Cons.prems(4,5) ok(1)]
  from Cons.IH [OF rest(1) _ ok(2) s] Cons.prems(2) show ?case by simp
qed simp

end

text \<open>
  C4. Messages on a stream are never interleaved: however the goroutines that call \<open>WriteMessage\<close>
  on one codec take turns between any two writes of the encoder, at most one is past the lock,
  some goroutine can always go on until all have returned, and while no write failed, what the
  underlying connection has got whenever the lock is free is exactly the whole encodings of the
  messages whose calls have returned, one after the other.
\<close>

theorem concurrent_writes_never_interleave:
  assumes "msgp_writing A obj W out sent" and "out w0 = base" and "sent w0 = base"
    and "threads_reachable (gen_section W) (map (\<lambda>am. (am, None)) ams) w0 ts (mu, w)"
  shows "(\<forall>i < length ts. \<forall>j < length ts. inside (ts ! i) \<longrightarrow> inside (ts ! j) \<longrightarrow> i = j) \<and>
    (\<forall>j < length ts. (\<nexists>l. ts ! j = Returned l) \<longrightarrow> (\<exists>i < length ts. thread_step (gen_section W) i (ts ! i) (mu, w) \<noteq> None)) \<and>
    (mu = None \<and> (\<forall>i < length ts. \<forall>am e. ts ! i \<noteq> Returned (am, Some e)) \<longrightarrow>
      (\<exists>order. distinct order \<and> set order = {i. i < length ts \<and> (\<exists>l. ts ! i = Returned l)} \<and>
        sent w = base @ concat (map (\<lambda>i. fst (Message_MarshalMsg A (ams ! i) [])) order)))"
proof -
  note reach = assms(4)
  obtain order rs st where o: "distinct order" "in_turn (gen_section W) (map (\<lambda>am. (am, None)) ams) order w0 = (st, rs)"
    and w: "mu = None \<Longrightarrow> w = st"
    and ids: "set order = {i. i < length ts \<and> (\<exists>l. ts ! i = Returned l)}" "set order \<subseteq> {..<length ams}"
    and rs: "\<And>i l. (i, l) \<in> set rs \<longleftrightarrow> i < length ts \<and> ts ! i = Returned l"
    by (rule mutex_atomic [OF reach]) auto
  have "sent w = base @ concat (map (\<lambda>i. message_form A (ams ! i)) order)"
    if rest: "mu = None" "\<forall>i < length ts. \<forall>am e. ts ! i \<noteq> Returned (am, Some e)"
  proof -
    have "list_all (\<lambda>(i, l). snd l = None) rs" using rest(2) by (auto simp: list_all_iff rs)
    with msgp_writing.gen_in_turn [OF assms(1) o(2) ids(2) _ assms(2,3)] w rest(1) show ?thesis by blast
  qed
  with mutex_contract [OF reach] o(1) ids(1) show ?thesis
    by (auto simp: msgp_encoding.Message_MarshalMsg_form [OF msgp_writing.axioms(1) [OF assms(1)]])
qed

section \<open>The websocket codec\<close>

text \<open>
  What the callers share is the encoder's writer and the connection. A caller's own state is its
  wire message, the message writer it has got from \<open>NextWriter\<close>, and the error it has met. Once
  it has a message writer it closes it, whatever happened; an earlier error is the one returned.
\<close>

type_synonym ('ws, 'wr, 'w, 'e) ws_stmt = "('w \<times> 'ws, bytes message \<times> 'wr option \<times> 'e goerr option) stmt"

fun ws_next :: "('ws, 'rd, 'wr, 's, 'w, 'e) ws_lib \<Rightarrow> ('ws, 'wr, 'w, 'e) ws_stmt" where
  "ws_next L ((w, ws), am, h, err) =
     (let (h, ws, err) = NextWriter L ws BinaryMessage in ((w, ws), am, if err = None then Some h else None, err))"

fun ws_reset :: "('ws, 'rd, 'wr, 's, 'w, 'e) ws_lib \<Rightarrow> ('ws, 'wr, 'w, 'e) ws_stmt" where
  "ws_reset L ((w, ws), am, h, err) =
     (((case h of None \<Rightarrow> w | Some h \<Rightarrow> Writer_Reset L w h), ws), am, h, err)"

fun ws_write :: "('w, 'e) writer_op \<Rightarrow> ('ws, 'wr, 'w, 'e) ws_stmt" where
  "ws_write f ((w, ws), am, h, None) = (let (w, err) = f w in ((w, ws), am, h, err))"
| "ws_write f ((w, ws), am, h, Some e) = ((w, ws), am, h, Some e)"

fun ws_done :: "('ws, 'rd, 'wr, 's, 'w, 'e) ws_lib \<Rightarrow> ('ws, 'wr, 'w, 'e) ws_stmt" where
  "ws_done L ((w, ws), am, None, err) = ((w, ws), am, None, err)"
| "ws_done L ((w, ws), am, Some h, err) =
     (let (w, ws, cerr) = Writer_Close L h w ws in ((w, ws), am, None, if err = None then cerr else err))"

definition ws_section ::
    "('w, 'e) msgp_out \<Rightarrow> ('ws, 'rd, 'wr, 's, 'w, 'e) ws_lib \<Rightarrow> bytes message \<times> 'wr option \<times> 'e goerr option
       \<Rightarrow> ('ws, 'wr, 'w, 'e) ws_stmt list" where
  "ws_section W L l = ws_next L # ws_reset L # map ws_write (write_ops W (fst l)) @ [ws_done L]"

lemma ws_run_failed: "run_stmts (map ws_write fs) ((w, ws), am, h, Some e) = ((w, ws), am, h, Some e)"
  by (induction fs) simp_all

lemma ws_run_writes:
  "run_stmts (map ws_write fs) ((w, ws), am, h, None) = (let (w, err) = run_ops fs w in ((w, ws), am, h, err))"
proof (induction fs arbitrary: w)
  case (Cons f fs)
  obtain w' e where "f w = (w', e)" by fastforce
  with Cons ws_run_failed show ?case by (cases e) simp_all
qed simp

lemma ws_section_run:
  "Ws_WriteMessage T A store W L pick c st msg =
     (let (m, pool) = GetMessage pick (w_pool st);
          (m, mm, err) = ToWire T A store (w_mem st) m msg;
          st = \<lparr>w_mem = mm, w_pool = PutMessage m pool\<rparr> in
      if err \<noteq> None then (c, st, err) else
      let l = (deref mm m, None, None);
          ((w, ws), _, _, err) = run_stmts (ws_section W L l) ((ws_w c, ws_conn c), l)
      in (c\<lparr>ws_w := w, ws_conn := ws\<rparr>, st, err))"
  by (auto simp: Ws_WriteMessage_def ws_section_def ws_run_writes ws_run_failed run_stmts_append locked_section Let_def
      split: prod.split)

context ws_writing
begin

lemma ws_section_closes:
  "run_stmts (ws_section W L (am, None, None)) ((w, c), am, None, None) = ((w', c'), l) \<Longrightarrow> unclosed c' = unclosed c"
  using next_writer next_writer_fails close_closes
  by (auto simp: ws_section_def run_stmts_append ws_run_writes ws_run_failed split: prod.splits if_splits)

lemma ws_section_sends:
  assumes "run_stmts (ws_section W L (am, None, None)) ((w, c), am, None, None) = ((w', c'), l)" and "snd (snd l) = None"
  shows "outgoing c' = outgoing c @ [(BinaryMessage, message_form A am)]"
proof -
  obtain h c1 e1 where n: "NextWriter L c BinaryMessage = (h, c1, e1)" by (metis prod_cases3)
  have "e1 = None" using assms n by (cases e1) (auto simp: ws_section_def run_stmts_append ws_run_failed)
  moreover obtain w2 e2 where r: "run_ops (write_ops W am) (Writer_Reset L w h) = (w2, e2)" by fastforce
  moreover obtain w3 c3 e3 where c3: "Writer_Close L h w2 c1 = (w3, c3, e3)" by (metis prod_cases3)
  ultimately have ok: "e1 = None" "e2 = None" "e3 = None" "c' = c3"
    using assms n by (auto simp: ws_section_def run_stmts_append ws_run_writes split: if_splits)
  obtain w1 where w: "Message_EncodeMsg W am (Writer_Reset L w h) = (w1, None)" "Flush W w1 = (w2, None)"
    using r ok(2) by (auto simp: locked_section split: prod.splits if_splits)
  have "sent w2 = message_form A am"
    using writesD [OF Message_EncodeMsg_writes w(1)] flush [OF w(2)] reset_writer by simp
  with next_writer [OF n [unfolded ok]] close_completes [OF c3 [unfolded ok]] ok(4) show ?thesis by simp
qed

lemma ws_in_turn:
  "in_turn (ws_section W L) (map (\<lambda>am. (am, None, None)) ams) order (w, c) = ((w', c'), rs) \<Longrightarrow>
   set order \<subseteq> {..<length ams} \<Longrightarrow> unclosed c' = unclosed c \<and> (list_all (\<lambda>(i, l). snd (snd l) = None) rs \<longrightarrow>
     outgoing c' = outgoing c @ map (\<lambda>i. (BinaryMessage, message_form A (ams ! i))) order)"
proof (induction order arbitrary: w c rs)
  case (Cons i order)
  obtain w1 c1 l where r: "run_stmts (ws_section W L (ams ! i, None, None)) ((w, c), ams ! i, None, None) = ((w1, c1), l)"
    by (metis surj_pair)
  obtain rs' where rest: "in_turn (ws_section W L) (map (\<lambda>am. (am, None, None)) ams) order (w1, c1) = ((w', c'), rs')"
    "rs = (i, l) # rs'"
    using Cons.prems r by (auto split: prod.splits)
  from Cons.IH [OF rest(1)] Cons.prems(2) ws_section_closes [OF r] ws_section_sends [OF r] rest(2) show ?case by auto
qed simp

end

text \<open>
  C5. Frames on a websocket are never mixed up: \<open>gorilla/websocket\<close> allows one message writer at
  a time, and however the goroutines that call \<open>WriteMessage\<close> take turns, at most one is past the
  lock, some goroutine can always go on until all have returned, and whenever the lock is free
  every message writer has been closed, also after errors; while no write failed, the frames
  sent are the messages whose calls have returned, each whole in one binary frame.
\<close>

theorem concurrent_frames_stay_whole:
  assumes W: "ws_writing A obj W out sent L outgoing unclosed kind"
    and reach: "threads_reachable (ws_section W L) (map (\<lambda>am. (am, None, None)) ams) (w0, c0) ts (mu, w, c)"
  shows "(\<forall>i < length ts. \<forall>j < length ts. inside (ts ! i) \<longrightarrow> inside (ts ! j) \<longrightarrow> i = j) \<and>
    (\<forall>j < length ts. (\<nexists>l. ts ! j = Returned l) \<longrightarrow> (\<exists>i < length ts. thread_step (ws_section W L) i (ts ! i) (mu, w, c) \<noteq> None)) \<and>
    (mu = None \<longrightarrow> unclosed c = unclosed c0) \<and>
    (mu = None \<and> (\<forall>i < length ts. \<forall>am h e. ts ! i \<noteq> Returned (am, h, Some e)) \<longrightarrow>
      (\<exists>order. distinct order \<and> set order = {i. i < length ts \<and> (\<exists>l. ts ! i = Returned l)} \<and>
        outgoing c = outgoing c0 @ map (\<lambda>i. (BinaryMessage, fst (Message_MarshalMsg A (ams ! i) []))) order))"
proof -
  obtain order rs w1 c1 where o: "distinct order"
      "in_turn (ws_section W L) (map (\<lambda>am. (am, None, None)) ams) order (w0, c0) = ((w1, c1), rs)"
    and c: "mu = None \<Longrightarrow> c = c1"
    and ids: "set order = {i. i < length ts \<and> (\<exists>l. ts ! i = Returned l)}" "set order \<subseteq> {..<length ams}"
    and rs: "\<And>i l. (i, l) \<in> set rs \<longleftrightarrow> i < length ts \<and> ts ! i = Returned l"
    by (rule mutex_atomic [OF reach]) auto
  note sends = ws_writing.ws_in_turn [OF W o(2)]
  have "outgoing c = outgoing c0 @ map (\<lambda>i. (BinaryMessage, message_form A (ams ! i))) order"
    if rest: "mu = None" "\<forall>i < length ts. \<forall>am h e. ts ! i \<noteq> Returned (am, h, Some e)"
  proof -
    have "list_all (\<lambda>(i, l). snd (snd l) = None) rs" using rest(2) by (auto simp: list_all_iff rs)
    with sends ids(2) c rest(1) show ?thesis by auto
  qed
  moreover have "unclosed c = unclosed c0" if "mu = None" using sends ids(2) c that by auto
  ultimately show ?thesis using mutex_contract [OF reach] o(1) ids(1)
    by (auto simp: msgp_encoding.Message_MarshalMsg_form [OF msgp_writing.axioms(1) [OF ws_writing.axioms(1) [OF W]]])
qed

section \<open>The redis codec\<close>

text \<open>
  The callers share the client, the buffer \<open>c.buf\<close> and the memory it is in; each has its wire
  message, the slice \<open>b\<close> it marshaled into, the connection it has borrowed, and its error. It is
  the lock that lets all of them use the one buffer: the payload is published from it after it
  was filled.
\<close>

type_synonym ('d, 'cn, 'e) rds_stmt =
  "('d \<times> slice \<times> mem, bytes message \<times> slice \<times> 'cn option \<times> 'e goerr option) stmt"

fun rds_marshal :: "'e msgp_append \<Rightarrow> store \<Rightarrow> ('d, 'cn, 'e) rds_stmt" where
  "rds_marshal A store ((d, buf, mm), am, b, h, err) =
     (let (form, err) = Message_MarshalMsg A am []; (b, mm) = store mm (reslice0 buf) form in ((d, buf, mm), am, b, h, err))"

fun rds_keep :: "('d, 'cn, 'e) rds_stmt" where
  "rds_keep ((d, buf, mm), am, b, h, None) = ((d, b, mm), am, b, h, None)"
| "rds_keep ((d, buf, mm), am, b, h, Some e) = ((d, buf, mm), am, b, h, Some e)"

fun rds_connect :: "('d, 'su, 'cn, 'e) rds_lib \<Rightarrow> ('d, 'cn, 'e) rds_stmt" where
  "rds_connect L ((d, buf, mm), am, b, h, None) =
     (let (cn, d, err) = Db_Connection L d in ((d, buf, mm), am, b, if err = None then Some cn else None, err))"
| "rds_connect L ((d, buf, mm), am, b, h, Some e) = ((d, buf, mm), am, b, h, Some e)"

fun rds_publish :: "('d, 'su, 'cn, 'e) rds_lib \<Rightarrow> string \<Rightarrow> ('d, 'cn, 'e) rds_stmt" where
  "rds_publish L ch ((d, buf, mm), am, b, Some cn, None) =
     (let (_, d, err) = Conn_DoInt L cn ''PUBLISH'' ch (contents mm b) d in ((d, buf, mm), am, b, Some cn, err))"
| "rds_publish L ch x = x"

fun rds_return :: "('d, 'su, 'cn, 'e) rds_lib \<Rightarrow> ('d, 'cn, 'e) rds_stmt" where
  "rds_return L ((d, buf, mm), am, b, Some cn, err) = ((Conn_Return L cn d, buf, mm), am, b, None, err)"
| "rds_return L ((d, buf, mm), am, b, None, err) = ((d, buf, mm), am, b, None, err)"

definition rds_section ::
    "'e msgp_append \<Rightarrow> store \<Rightarrow> ('d, 'su, 'cn, 'e) rds_lib \<Rightarrow> string
       \<Rightarrow> bytes message \<times> slice \<times> 'cn option \<times> 'e goerr option \<Rightarrow> ('d, 'cn, 'e) rds_stmt list" where
  "rds_section A store L ch l = [rds_marshal A store, rds_keep, rds_connect L, rds_publish L ch, rds_return L]"

lemma rds_section_run:
  "Rds_WriteMessage T A store L pick c st msg =
     (let (m, pool) = GetMessage pick (w_pool st);
          (m, mm, err) = ToWire T A store (w_mem st) m msg in
      if err \<noteq> None then (c, \<lparr>w_mem = mm, w_pool = PutMessage m pool\<rparr>, err) else
      let l = (deref mm m, SliceNil, None, None);
          ((d, buf, mm), _, _, _, err) = run_stmts (rds_section A store L (rds_out c) l) ((rds_db c, rds_buf c, mm), l)
      in (c\<lparr>rds_db := d, rds_buf := buf\<rparr>, \<lparr>w_mem = mm, w_pool = PutMessage m pool\<rparr>, err))"
  by (auto simp: Rds_WriteMessage_def rds_section_def Let_def split: prod.split)

context rds_writing
begin

lemma rds_section_publishes:
  assumes store: "buffer_store store" and buf: "slice_ok mm buf"
    and run: "run_stmts (rds_section A store L ch l) ((d, buf, mm), am, SliceNil, None, None) = ((d', buf', mm'), l')"
  shows "borrowed d' = borrowed d" and "slice_ok mm' buf'"
    and "snd (snd (snd l')) = None \<Longrightarrow> published d' = (published d)(ch := published d ch @ [message_form A am])"
proof -
  obtain b mm1 where b: "store mm (reslice0 buf) (message_form A am) = (b, mm1)" by fastforce
  obtain cn d1 e1 where n: "Db_Connection L d = (cn, d1, e1)" by (metis prod_cases3)
  obtain k d2 e2 where p: "Conn_DoInt L cn ''PUBLISH'' ch (contents mm1 b) d1 = (k, d2, e2)" by (metis prod_cases3)
  have "slice_ok mm1 b" "contents mm1 b = message_form A am"
    using buffer_store.store_ok [OF store _ b] buffer_store.store_contents [OF store _ b] buf by simp_all
  moreover have "buf' = b" "mm' = mm1" "d' = (if e1 = None then Conn_Return L cn d2 else d1)"
    "snd (snd (snd l')) = (if e1 = None then e2 else e1)"
    using run b n p by (auto simp: rds_section_def Message_MarshalMsg_form split: if_splits)
  ultimately show "borrowed d' = borrowed d" "slice_ok mm' buf'"
    "snd (snd (snd l')) = None \<Longrightarrow> published d' = (published d)(ch := published d ch @ [message_form A am])"
    using n p connection connection_fails do_keeps do_publish conn_return by (cases e1; auto)+
qed

lemma rds_in_turn:
  "in_turn (rds_section A store L ch) (map (\<lambda>am. (am, SliceNil, None, None)) ams) order (d, buf, mm) = ((d', buf', mm'), rs) \<Longrightarrow>
   buffer_store store \<Longrightarrow> slice_ok mm buf \<Longrightarrow> set order \<subseteq> {..<length ams} \<Longrightarrow>
   borrowed d' = borrowed d \<and> slice_ok mm' buf' \<and> (list_all (\<lambda>(i, l). snd (snd (snd l)) = None) rs \<longrightarrow>
     published d' = (published d)(ch := published d ch @ map (\<lambda>i. message_form A (ams ! i)) order))"
proof (induction order arbitrary: d buf mm rs)
  case (Cons i order)
  let ?l = "(ams ! i, SliceNil, None, None)"
  obtain d1 buf1 mm1 l where r: "run_stmts (rds_section A store L ch ?l) ((d, buf, mm), ?l) = ((d1, buf1, mm1), l)"
    by (metis surj_pair)
  obtain rs' where rest: "in_turn (rds_section A store L ch) (map (\<lambda>am. (am, SliceNil, None, None)) ams) order (d1, buf1, mm1) =
      ((d', buf', mm'), rs')" "rs = (i, l) # rs'"
    using Cons.prems r by (auto split: prod.splits)
  note here = rds_section_publishes [OF Cons.prems(2,3) r]
  from Cons.IH [OF rest(1) Cons.prems(2) here(2)] Cons.prems(4) here(1,3) rest(2) show ?case by auto
qed simp

end

text \<open>
  C6. Publishing never mixes messages: although all callers of \<open>WriteMessage\<close> marshal into the
  codec's one buffer and publish from it later, at most one is past the lock, some goroutine can
  always go on until all have returned, and whenever the lock is free every borrowed connection
  is back in its pool and the buffer is intact; while no call failed, what the channel was sent
  are the messages whose calls have returned, each whole and once, and no other channel was sent
  anything.
\<close>

theorem concurrent_publishes_stay_whole:
  assumes R: "rds_writing A obj L published borrowed" and store: "buffer_store store" and buf: "slice_ok mm0 buf0"
    and reach: "threads_reachable (rds_section A store L ch) (map (\<lambda>am. (am, SliceNil, None, None)) ams) (d0, buf0, mm0) ts
      (mu, d, buf, mm)"
  shows "(\<forall>i < length ts. \<forall>j < length ts. inside (ts ! i) \<longrightarrow> inside (ts ! j) \<longrightarrow> i = j) \<and>
    (\<forall>j < length ts. (\<nexists>l. ts ! j = Returned l) \<longrightarrow>
      (\<exists>i < length ts. thread_step (rds_section A store L ch) i (ts ! i) (mu, d, buf, mm) \<noteq> None)) \<and>
    (mu = None \<longrightarrow> borrowed d = borrowed d0 \<and> slice_ok mm buf) \<and>
    (mu = None \<and> (\<forall>i < length ts. \<forall>am b h e. ts ! i \<noteq> Returned (am, b, h, Some e)) \<longrightarrow>
      (\<exists>order. distinct order \<and> set order = {i. i < length ts \<and> (\<exists>l. ts ! i = Returned l)} \<and>
        published d = (published d0)(ch := published d0 ch @ map (\<lambda>i. fst (Message_MarshalMsg A (ams ! i) [])) order)))"
proof -
  obtain order rs d1 buf1 mm1 where o: "distinct order"
      "in_turn (rds_section A store L ch) (map (\<lambda>am. (am, SliceNil, None, None)) ams) order (d0, buf0, mm0) = ((d1, buf1, mm1), rs)"
    and st: "mu = None \<Longrightarrow> d = d1 \<and> buf = buf1 \<and> mm = mm1"
    and ids: "set order = {i. i < length ts \<and> (\<exists>l. ts ! i = Returned l)}" "set order \<subseteq> {..<length ams}"
    and rs: "\<And>i l. (i, l) \<in> set rs \<longleftrightarrow> i < length ts \<and> ts ! i = Returned l"
    by (rule mutex_atomic [OF reach]) auto
  note sends = rds_writing.rds_in_turn [OF R o(2) store buf ids(2)]
  have "published d = (published d0)(ch := published d0 ch @ map (\<lambda>i. message_form A (ams ! i)) order)"
    if rest: "mu = None" "\<forall>i < length ts. \<forall>am b h e. ts ! i \<noteq> Returned (am, b, h, Some e)"
  proof -
    have "list_all (\<lambda>(i, l). snd (snd (snd l)) = None) rs" using rest(2) by (auto simp: list_all_iff rs)
    with sends st rest(1) show ?thesis by simp
  qed
  moreover have "borrowed d = borrowed d0 \<and> slice_ok mm buf" if "mu = None" using sends st that by simp
  ultimately show ?thesis using mutex_contract [OF reach] o(1) ids(1)
    by (auto simp: msgp_encoding.Message_MarshalMsg_form [OF rds_writing.axioms(1) [OF R]])
qed

section \<open>Runs\<close>

text \<open>The first two of three callers; the second overtakes the first, the third still waits.\<close>

abbreviation bare_wire :: "u64 \<Rightarrow> bytes message" where
  "bare_wire i \<equiv> \<lparr>ID = i, Func = '''', Args = [], Result = [], Error = None\<rparr>"

abbreviation three_wires :: "bytes message list" where
  "three_wires \<equiv> [bare_wire 1, bare_wire 2, bare_wire 3]"

lemma two_returned:
  "{i. i < length [Returned l, Returned l', Waiting l''] \<and> (\<exists>r. [Returned l, Returned l', Waiting l''] ! i = Returned r)} = {0, 1}"
  by (auto simp: less_Suc_eq nth_Cons')

lemma overtaken:
  "threads_reachable (gen_section ref_out) (map (\<lambda>am. (am, None)) three_wires) \<lparr>buffered = [], delivered = [], room = 50\<rparr>
     [Returned (bare_wire 1, None), Returned (bare_wire 2, None), Waiting (bare_wire 3, None)]
     (None, \<lparr>buffered = [], delivered = [0x95, 2, 0xa0, 0xc0, 0xc0, 0xc0, 0x95, 1, 0xa0, 0xc0, 0xc0, 0xc0], room = 38\<rparr>)"
  (is "threads_reachable ?body ?ls ?w0 _ _")
proof -
  have "threads_reachable ?body ?ls ?w0
      [Waiting (bare_wire 1, None), Returned (bare_wire 2, None), Waiting (bare_wire 3, None)]
      (None, \<lparr>buffered = [], delivered = [0x95, 2, 0xa0, 0xc0, 0xc0, 0xc0], room = 44\<rparr>)"
    using section_runs [OF threads_reachable.start, of 1 ?ls "(bare_wire 2, None)" ?body ?w0]
    by (simp add: gen_section_def run_unless_failed locked_section write_eval)
  from section_runs [OF this, of 0 "(bare_wire 1, None)"] show ?thesis
    by (simp add: gen_section_def run_unless_failed locked_section write_eval)
qed

theorem concurrent_writes_never_interleave_witness:
  "\<exists>order. distinct order \<and> set order = {0, 1} \<and>
    [0x95, 2, 0xa0, 0xc0, 0xc0, 0xc0, 0x95, 1, 0xa0, 0xc0, 0xc0, 0xc0] =
      concat (map (\<lambda>i. fst (Message_MarshalMsg ref_append (three_wires ! i) [])) order)"
  using concurrent_writes_never_interleave [OF ref_stream.msgp_writing_axioms _ _ overtaken, of "[]"]
  unfolding two_returned by (simp add: ref_written_def less_Suc_eq nth_Cons')

lemma frames_overtaken:
  "threads_reachable (ws_section ref_out ref_ws_lib) (map (\<lambda>am. (am, None, None)) three_wires)
     (\<lparr>buffered = [], delivered = [], room = 50\<rparr>, \<lparr>ws_in = [], ws_out = [], ws_open = 0, ws_room = 5\<rparr>)
     [Returned (bare_wire 1, None, None), Returned (bare_wire 2, None, None), Waiting (bare_wire 3, None, None)]
     (None, \<lparr>buffered = [], delivered = [0x95, 1, 0xa0, 0xc0, 0xc0, 0xc0], room = 38\<rparr>,
       \<lparr>ws_in = [], ws_out = [(2, [0x95, 2, 0xa0, 0xc0, 0xc0, 0xc0]), (2, [0x95, 1, 0xa0, 0xc0, 0xc0, 0xc0])], ws_open = 0, ws_room = 3\<rparr>)"
  (is "threads_reachable ?body ?ls ?s0 _ _")
proof -
  have "threads_reachable ?body ?ls ?s0
      [Waiting (bare_wire 1, None, None), Returned (bare_wire 2, None, None), Waiting (bare_wire 3, None, None)]
      (None, \<lparr>buffered = [], delivered = [0x95, 2, 0xa0, 0xc0, 0xc0, 0xc0], room = 44\<rparr>,
       \<lparr>ws_in = [], ws_out = [(2, [0x95, 2, 0xa0, 0xc0, 0xc0, 0xc0])], ws_open = 0, ws_room = 4\<rparr>)"
    using section_runs [OF threads_reachable.start, of 1 ?ls "(bare_wire 2, None, None)" ?body ?s0]
    by (simp add: ws_section_def ws_run_writes run_stmts_append locked_section ref_ws_lib_def BinaryMessage_def write_eval)
  from section_runs [OF this, of 0 "(bare_wire 1, None, None)"] show ?thesis
    by (simp add: ws_section_def ws_run_writes run_stmts_append locked_section ref_ws_lib_def BinaryMessage_def write_eval)
qed

theorem concurrent_frames_stay_whole_witness:
  "\<exists>order. distinct order \<and> set order = {0, 1} \<and>
    [(2, [0x95, 2, 0xa0, 0xc0, 0xc0, 0xc0]), (2, [0x95, 1, 0xa0, 0xc0, 0xc0, 0xc0])] =
      map (\<lambda>i. (BinaryMessage, fst (Message_MarshalMsg ref_append (three_wires ! i) []))) order"
  using concurrent_frames_stay_whole [OF ref_ws.ws_writing_axioms frames_overtaken]
  unfolding two_returned by (simp add: less_Suc_eq nth_Cons')

abbreviation redis_sent :: "bytes list \<Rightarrow> ref_redis" where
  "redis_sent bs \<equiv> \<lparr>rd_published = map (Pair ''out'') bs, rd_events = [], rd_borrowed = 0, rd_free = 1, rd_subscribed = []\<rparr>"

abbreviation redis_run :: "bytes message \<times> slice \<times> unit option \<times> ref_error goerr option \<Rightarrow> (ref_redis, unit, ref_error) rds_stmt list" where
  "redis_run \<equiv> rds_section ref_append (append_store no_spare) ref_rds_lib ''out''"

lemma publish_runs:
  "run_stmts (redis_run l) ((redis_sent [], SliceNil, []), bare_wire 2, SliceNil, None, None) =
    ((redis_sent [[0x95, 2, 0xa0, 0xc0, 0xc0, 0xc0]], Slice 0 6 6, [[0x95, 2, 0xa0, 0xc0, 0xc0, 0xc0]]),
     bare_wire 2, Slice 0 6 6, None, None)"
  "run_stmts (redis_run l) ((redis_sent [[0x95, 2, 0xa0, 0xc0, 0xc0, 0xc0]], Slice 0 6 6, [[0x95, 2, 0xa0, 0xc0, 0xc0, 0xc0]]),
     bare_wire 1, SliceNil, None, None) =
    ((redis_sent [[0x95, 2, 0xa0, 0xc0, 0xc0, 0xc0], [0x95, 1, 0xa0, 0xc0, 0xc0, 0xc0]], Slice 0 6 6, [[0x95, 1, 0xa0, 0xc0, 0xc0, 0xc0]]),
     bare_wire 1, Slice 0 6 6, None, None)"
  by (simp_all add: rds_section_def Message_MarshalMsg_def ref_rds_lib_def write_eval)

lemma publishes_overtaken:
  "threads_reachable redis_run (map (\<lambda>am. (am, SliceNil, None, None)) three_wires) (redis_sent [], SliceNil, [])
     [Returned (bare_wire 1, Slice 0 6 6, None, None), Returned (bare_wire 2, Slice 0 6 6, None, None),
      Waiting (bare_wire 3, SliceNil, None, None)]
     (None, redis_sent [[0x95, 2, 0xa0, 0xc0, 0xc0, 0xc0], [0x95, 1, 0xa0, 0xc0, 0xc0, 0xc0]],
      Slice 0 6 6, [[0x95, 1, 0xa0, 0xc0, 0xc0, 0xc0]])"
  using section_runs [where i = 0, OF section_runs [where i = 1, OF threads_reachable.start [where ls = "map (\<lambda>am. (am, SliceNil, None, None)) three_wires"]
    _ _ publish_runs(1)] _ _ publish_runs(2)] by simp

theorem concurrent_publishes_stay_whole_witness:
  "\<exists>order. distinct order \<and> set order = {0, 1} \<and>
    ref_published (redis_sent [[0x95, 2, 0xa0, 0xc0, 0xc0, 0xc0], [0x95, 1, 0xa0, 0xc0, 0xc0, 0xc0]]) =
      (ref_published (redis_sent []))(''out'' := map (\<lambda>i. fst (Message_MarshalMsg ref_append (three_wires ! i) [])) order)"
  using concurrent_publishes_stay_whole [OF ref_rds.rds_writing_axioms go_store.buffer_store_axioms _ publishes_overtaken]
  unfolding two_returned by (simp add: less_Suc_eq nth_Cons' ref_published_def)

end
