(* ===== verification/Websocket_Props.thy ===== *)
theory Websocket_Props
  imports Websocket Samples
begin

text \<open>Properties of the websocket codec, with examples on the reference connection.\<close>

abbreviation sample_ws :: "(int \<times> bytes) list \<Rightarrow> nat \<Rightarrow> nat \<Rightarrow> (ref_ws, bytes list, ref_writer) ws_codec" where
  "sample_ws msgs n room_left \<equiv> \<lparr>ws_conn = \<lparr>ws_in = msgs, ws_out = [], ws_open = 0, ws_room = n\<rparr>, ws_r = [],
     ws_wire = new_Message, ws_w = \<lparr>buffered = [], delivered = [], room = room_left\<rparr>\<rparr>"

abbreviation ws_write where
  "ws_write \<equiv> Ws_WriteMessage ref_types ref_append (append_store no_spare) ref_out ref_ws_lib"

abbreviation call_bytes :: bytes where
  "call_bytes \<equiv> [0x95, 7, 0xa9, 0x41, 0x72, 0x69, 0x74, 0x68, 0x2e, 0x41, 0x64, 0x64, 0x83, 0xa1, 0x61, 20, 0xa1,
     0x62, 0xfd, 0xa1, 0x73, 0xa2, 0x68, 0x69, 0xc0, 0xc0]"

lemma call_written:
  "ws_write None (sample_ws [] 3 40) empty_world sample_call =
     (sample_ws [] 2 40 \<lparr>ws_conn := \<lparr>ws_in = [], ws_out = [(2, call_bytes)], ws_open = 0, ws_room = 2\<rparr>,
        ws_w := \<lparr>buffered = [], delivered = call_bytes, room = 14\<rparr>\<rparr>,
      \<lparr>w_mem = [[0x83, 0xa1, 0x61, 20, 0xa1, 0x62, 0xfd, 0xa1, 0x73, 0xa2, 0x68, 0x69]],
       w_pool = [\<lparr>ID = 7, Func = ''Arith.Add'', Args = Slice 0 0 12, Result = SliceNil, Error = None\<rparr>]\<rparr>, None)"
  by (simp add: Ws_WriteMessage_def ref_ws_lib_def BinaryMessage_def write_eval)

text \<open>
  One message, one frame: when \<open>WriteMessage\<close> reports success, exactly one message was added
  to the connection, a binary one, and it holds the whole encoding of the wire message and
  nothing else, whatever an earlier failed write left in the codec's writer.
\<close>

theorem websocket_one_frame_per_message:
  assumes "ws_writing A obj W out sent L outgoing unclosed kind" and "buffer_store store"
    and "world_ok ss st" and "set (payload_slices msg) \<subseteq> set ss"
    and "Ws_WriteMessage T A store W L pick c st msg = (c', st', None)"
  shows "\<exists>am. wire_of T A (w_mem st) msg = Inr am \<and>
    outgoing (ws_conn c') = outgoing (ws_conn c) @ [(2, fst (Message_MarshalMsg A am []))]"
proof -
  have "msgp_encoding A obj" using assms(1) by (rule msgp_writing.axioms(1) [OF ws_writing.axioms(1)])
  moreover have "world_ok ([] @ ss) st" using assms(3) by simp
  ultimately show ?thesis
    using message_sender.write_sends [OF websocket_sender [OF assms(1,2)] _ assms(4) TrueI assms(5)]
    by (simp add: msgp_encoding.Message_MarshalMsg_form BinaryMessage_def)
qed

theorem websocket_one_frame_per_message_witness:
  "\<exists>am. wire_of ref_types ref_append [] sample_call = Inr am \<and>
    [(2, call_bytes)] = [(2, fst (Message_MarshalMsg ref_append am []))]"
  using websocket_one_frame_per_message [OF ref_ws.ws_writing_axioms go_store.buffer_store_axioms empty_world_ok _ call_written]
  by (simp add: payload_slices_def)

text \<open>
  C21. Every message writer that \<open>WriteMessage\<close> obtains from the connection is closed again, exactly
  once, on every path: success, a payload that cannot be serialized, a failed encode or flush.
  gorilla allows one open writer per connection, so a leak would end the connection.
\<close>

theorem websocket_writer_closed_on_every_path:
  assumes "ws_writing A obj W out sent L outgoing unclosed kind"
  shows "unclosed (ws_conn (fst (Ws_WriteMessage T A store W L pick c st msg))) = unclosed (ws_conn c)"
  using websocket_closes_writer [OF assms] by (metis prod.collapse)

theorem websocket_writer_closed_on_every_path_witness:
  "snd (snd (ws_write None (sample_ws [] 3 20) empty_world sample_call)) = Some (WrapError (Lib ErrClosed) [''Args'']) \<and>
   ws_open (ws_conn (fst (ws_write None (sample_ws [] 3 20) empty_world sample_call))) = 0"
proof
  show "snd (snd (ws_write None (sample_ws [] 3 20) empty_world sample_call)) = Some (WrapError (Lib ErrClosed) [''Args''])"
    by (simp add: Ws_WriteMessage_def ref_ws_lib_def BinaryMessage_def write_eval)
  show "ws_open (ws_conn (fst (ws_write None (sample_ws [] 3 20) empty_world sample_call))) = 0"
    by (subst websocket_writer_closed_on_every_path [OF ref_ws.ws_writing_axioms]) simp
qed

text \<open>
  C33. A message that is not binary is refused with \<open>ErrInvalidMsg\<close>: birpc's message, the wire
  message and all memory are as before, and the next message is still there to be read.
\<close>

theorem websocket_refuses_text:
  assumes "ws_reading A obj S view L incoming" and "incoming (ws_conn c) = (mt, b) # rest" and "mt \<noteq> 2"
  shows "\<exists>c'. Ws_ReadMessage L store S c mm msg =
      (msg, c', mm, Some (ErrorsNew ''Websocket message was not a binary message'')) \<and>
    incoming (ws_conn c') = rest \<and> ws_wire c' = ws_wire c"
  using ws_reading.next_reader [OF assms(1,2)] assms(3)
  by (auto simp: Ws_ReadMessage_def BinaryMessage_def ErrInvalidMsg_def)

theorem websocket_refuses_text_witness:
  "\<exists>c'. Ws_ReadMessage ref_ws_lib (append_store no_spare) ref_reader (sample_ws [(1, call_bytes), (2, call_bytes)] 0 0) [] plain_call =
      (plain_call, c', [], Some (ErrorsNew ''Websocket message was not a binary message'')) \<and>
    ws_in (ws_conn c') = [(2, call_bytes)]"
  using websocket_refuses_text [OF ref_ws.ws_reading_axioms, of "sample_ws [(1, call_bytes), (2, call_bytes)] 0 0" 1 call_bytes
      "[(2, call_bytes)]" "append_store no_spare" "[]" plain_call]
  by auto

text \<open>
  C18. Frames are independent: after a frame that could not be read, for whatever reason and
  wherever its decoding stopped, birpc's message is untouched and a well-formed message in the
  next frame is read completely.
\<close>

theorem websocket_recovers_after_bad_frame:
  assumes "ws_reading A obj S view L incoming" and "buffer_store store"
    and "separated mm (slices (ws_wire c))"
    and "incoming (ws_conn c) = bad # (2, fst (Message_MarshalMsg A am [])) # rest" and "message_ok obj am"
    and "Ws_ReadMessage L store S c mm msg = (msg1, c1, mm1, Some e)"
  shows "msg1 = msg \<and> (\<exists>msg2 c2 mm2. Ws_ReadMessage L store S c1 mm1 msg = (msg2, c2, mm2, None) \<and>
    carries mm2 msg2 am \<and> incoming (ws_conn c2) = rest)"
proof -
  have enc: "msgp_encoding A obj" using assms(1) by (rule msgp_decoding.axioms(1) [OF ws_reading.axioms(1)])
  have "separated mm (slices (ws_wire c) @ [])" using assms(3) by simp
  note f = websocket_read_fails [OF assms(1,2) this assms(4,6)]
  have "separated mm1 (slices (ws_wire c1) @ [])" using f by blast
  moreover have "incoming (ws_conn c1) = [(BinaryMessage, message_form A am)] @ rest"
    using f by (simp add: msgp_encoding.Message_MarshalMsg_form [OF enc] BinaryMessage_def)
  ultimately show ?thesis
    using message_receiver.read_delivers [OF websocket_receiver [OF assms(1,2)] _ TrueI _ assms(5), of mm1 c1 "[]" rest msg] f
    by auto
qed

lemma bad_frame_fails:
  "Ws_ReadMessage ref_ws_lib (append_store no_spare) ref_reader
     (sample_ws [(2, [0x95, 7, 0xa0, 0x01, 0x92, 0x05]), (2, [0x95, 1, 0xa0, 0xc0, 0xc0, 0xc0])] 0 0) [] plain_call =
   (plain_call, \<lparr>ws_conn = \<lparr>ws_in = [(2, [0x95, 1, 0xa0, 0xc0, 0xc0, 0xc0])], ws_out = [], ws_open = 0, ws_room = 0\<rparr>,
      ws_r = [[0x92, 0x05]], ws_wire = \<lparr>ID = 7, Func = '''', Args = Slice 0 1 1, Result = SliceNil, Error = None\<rparr>,
      ws_w = \<lparr>buffered = [], delivered = [], room = 0\<rparr>\<rparr>, [[1]], Some (WrapError (Lib ErrShortOrType) [''Result'']))"
  by code_simp

theorem websocket_recovers_after_bad_frame_witness:
  "\<exists>msg2 c2 mm2. Ws_ReadMessage ref_ws_lib (append_store no_spare) ref_reader
     \<lparr>ws_conn = \<lparr>ws_in = [(2, [0x95, 1, 0xa0, 0xc0, 0xc0, 0xc0])], ws_out = [], ws_open = 0, ws_room = 0\<rparr>,
      ws_r = [[0x92, 0x05]], ws_wire = \<lparr>ID = 7, Func = '''', Args = Slice 0 1 1, Result = SliceNil, Error = None\<rparr>,
      ws_w = \<lparr>buffered = [], delivered = [], room = 0\<rparr>\<rparr> [[1]] plain_call = (msg2, c2, mm2, None) \<and>
    carries mm2 msg2 \<lparr>ID = 1, Func = '''', Args = [], Result = [], Error = None\<rparr> \<and> ws_in (ws_conn c2) = []"
proof -
  let ?am = "\<lparr>ID = 1, Func = '''', Args = [], Result = [], Error = None\<rparr> :: bytes message"
  have "fst (Message_MarshalMsg ref_append ?am []) = [0x95, 1, 0xa0, 0xc0, 0xc0, 0xc0]"
    by (simp add: Message_MarshalMsg_def ref_eval)
  moreover have "message_ok mp_obj ?am" by (simp add: message_ok_def str_ok_def)
  ultimately show ?thesis
    using websocket_recovers_after_bad_frame [OF ref_ws.ws_reading_axioms go_store.buffer_store_axioms _ _ _ bad_frame_fails,
        where am = ?am and rest = "[]"]
    by (simp add: separated_def slices_def new_Message_def)
qed

text \<open>
  C10. A call arrives over a websocket: when \<open>WriteMessage\<close> reports success and its frame is the
  next one on the other side, \<open>ReadMessage\<close> and the unmarshaling of the payloads give the
  receiver the identifier, function, error and values the sender passed in.
\<close>

theorem websocket_message_travels:
  assumes "ws_writing A obj W out sent L outgoing unclosed kind" and "ws_reading A obj S view L' incoming"
    and "buffer_store store" and "message_travels T obj msg za va zr vr"
    and "Ws_WriteMessage T A store W L pick c st msg = (c', st', None)" and "world_ok [] st"
    and "outgoing (ws_conn c') = outgoing (ws_conn c) @ new"
    and "separated mm (slices (ws_wire r))" and "incoming (ws_conn r) = new @ rest"
  shows "\<exists>msg' r' mm'. Ws_ReadMessage L' store S r mm old = (msg', r', mm', None) \<and> incoming (ws_conn r') = rest \<and>
    msg_ID msg' = msg_ID msg \<and> msg_Func msg' = msg_Func msg \<and> msg_Error msg' = msg_Error msg \<and>
    Ws_UnmarshalArgs T mm' msg' za = (va, None) \<and> Ws_UnmarshalResult T mm' msg' zr = (vr, None)"
proof -
  have "separated mm (slices (ws_wire r) @ [])" using assms(8) by simp
  from message_channel.travel [OF websocket_channel [OF assms(1-3)] assms(4-6) TrueI assms(7) this TrueI assms(9), of old]
  show ?thesis by (simp add: Ws_UnmarshalArgs_def Ws_UnmarshalResult_def)
qed

theorem websocket_message_travels_witness:
  "\<exists>msg' r' mm'. Ws_ReadMessage ref_ws_lib (append_store no_spare) ref_reader (sample_ws [(2, call_bytes)] 0 0) [] plain_call =
      (msg', r', mm', None) \<and> msg_ID msg' = 7 \<and>
    Ws_UnmarshalArgs ref_types mm' msg' (VArgs zero_args) = (VArgs sample_args, None)"
  using websocket_message_travels [OF ref_ws.ws_writing_axioms ref_ws.ws_reading_axioms go_store.buffer_store_axioms
      sample_call_travels call_written empty_world_ok,
      where new = "[(2, call_bytes)]" and mm = "[]" and rest = "[]" and old = plain_call and r = "sample_ws [(2, call_bytes)] 0 0"]
  by (fastforce simp: separated_def slices_def new_Message_def)

end
