(* ===== verification/Redis_Props.thy ===== *)
theory Redis_Props
  imports Redis Samples
begin

text \<open>Properties of the redis codec, with examples on the reference server.\<close>

abbreviation sample_redis :: "pub_sub list \<Rightarrow> nat \<Rightarrow> unit option \<Rightarrow> (ref_redis, unit) rds_codec" where
  "sample_redis evs n sub \<equiv> \<lparr>rds_db = \<lparr>rd_published = [], rd_events = evs, rd_borrowed = 0, rd_free = n, rd_subscribed = []\<rparr>,
     rds_in = ''in'', rds_out = ''out'', rds_sub = sub, rds_wire = new_Message, rds_buf = SliceNil\<rparr>"

abbreviation redis_write where
  "redis_write \<equiv> Rds_WriteMessage ref_types ref_append (append_store no_spare) ref_rds_lib"

abbreviation redis_call :: bytes where
  "redis_call \<equiv> [0x95, 7, 0xa9, 0x41, 0x72, 0x69, 0x74, 0x68, 0x2e, 0x41, 0x64, 0x64, 0x83, 0xa1, 0x61, 20, 0xa1,
     0x62, 0xfd, 0xa1, 0x73, 0xa2, 0x68, 0x69, 0xc0, 0xc0]"

lemma call_published:
  "redis_write None (sample_redis [] 2 None) empty_world sample_call =
     (sample_redis [] 2 None \<lparr>rds_db := \<lparr>rd_published = [(''out'', redis_call)], rd_events = [], rd_borrowed = 0,
        rd_free = 2, rd_subscribed = []\<rparr>, rds_buf := Slice 1 26 26\<rparr>,
      \<lparr>w_mem = [[0x83, 0xa1, 0x61, 20, 0xa1, 0x62, 0xfd, 0xa1, 0x73, 0xa2, 0x68, 0x69], redis_call],
       w_pool = [\<lparr>ID = 7, Func = ''Arith.Add'', Args = Slice 0 0 12, Result = SliceNil, Error = None\<rparr>]\<rparr>, None)"
  by (simp add: Rds_WriteMessage_def Message_MarshalMsg_def ref_rds_lib_def write_eval)

lemma sample_redis_world: "world_ok [rds_buf (sample_redis evs n sub)] empty_world"
  by (simp add: world_ok_def separated_def)

text \<open>
  C11. A call arrives through redis: when \<open>WriteMessage\<close> reports success and what it published is
  the next message of a subscription, with any confirmations before it, \<open>ReadMessage\<close> and the
  unmarshaling of the payloads give the receiver the identifier, function, error and values the
  sender passed in.
\<close>

theorem redis_message_travels:
  assumes "rds_writing A obj L published borrowed" and "rds_reading A obj S L' queue" and "buffer_store store"
    and "message_travels T obj msg za va zr vr"
    and "Rds_WriteMessage T A store L pick c st msg = (c', st', None)" and "world_ok [rds_buf c] st"
    and "published (rds_db c') (rds_out c') = published (rds_db c) (rds_out c) @ new"
    and "separated mm (slices (rds_wire r))" and "rds_sub r = Some sub"
    and "payloads (queue (rds_db r) sub) = new @ rest"
  shows "\<exists>msg' r' mm'. Rds_ReadMessage L' store S r mm old = Some (msg', r', mm', None) \<and>
    msg_ID msg' = msg_ID msg \<and> msg_Func msg' = msg_Func msg \<and> msg_Error msg' = msg_Error msg \<and>
    Rds_UnmarshalArgs T mm' msg' za = (va, None) \<and> Rds_UnmarshalResult T mm' msg' zr = (vr, None)"
proof -
  have sep: "separated mm (slices (rds_wire r) @ [])" using assms(8) by simp
  have con: "rds_sub r \<noteq> None" "payloads (queue (rds_db r) (the (rds_sub r))) = new @ rest" using assms(9,10) by simp_all
  from message_channel.travel [OF redis_channel [OF assms(1-3)] assms(4-6) TrueI assms(7) sep con, of old]
  show ?thesis unfolding Rds_UnmarshalArgs_def Rds_UnmarshalResult_def by blast
qed

theorem redis_message_travels_witness:
  "\<exists>msg' r' mm'. Rds_ReadMessage ref_rds_lib (append_store no_spare) ref_in
      (sample_redis [confirmation ''subscribe'', \<lparr>Kind = ''message'', Value = Some redis_call\<rparr>] 0 (Some ())) [] plain_call =
      Some (msg', r', mm', None) \<and> msg_ID msg' = 7 \<and>
    Rds_UnmarshalArgs ref_types mm' msg' (VArgs zero_args) = (VArgs sample_args, None)"
proof -
  have "payloads [confirmation ''subscribe'', \<lparr>Kind = ''message'', Value = Some redis_call\<rparr>] = [redis_call] @ []"
    by (simp add: payloads_def is_message_def confirmation_def str_contains_def)
  with redis_message_travels [OF ref_rds.rds_writing_axioms ref_rds.rds_reading_axioms go_store.buffer_store_axioms
      sample_call_travels call_published, where new = "[redis_call]" and mm = "[]" and rest = "[]" and old = plain_call
      and r = "sample_redis [confirmation ''subscribe'', \<lparr>Kind = ''message'', Value = Some redis_call\<rparr>] 0 (Some ())"]
  show ?thesis
    by (fastforce simp: separated_def slices_def new_Message_def ref_published_def world_ok_def)
qed

lemma Rds_ReadMessage_skips:
  assumes R: "rds_reading A obj S L queue" and "list_all (\<lambda>ev. \<not> is_message ev) skipped"
    and "rds_sub c = Some sub" and "queue (rds_db c) sub = skipped @ evs"
  shows "\<exists>db. queue db sub = evs \<and>
    Rds_ReadMessage L store S c mm msg = Rds_ReadMessage L store S (c\<lparr>rds_db := db\<rparr>) mm msg"
  using assms(2-)
proof (induction skipped arbitrary: c)
  case Nil
  have "c = c\<lparr>rds_db := rds_db c\<rparr>" by simp
  with Nil show ?case by (metis append_Nil)
next
  case (Cons ev skipped)
  obtain db where pop: "Sub_Pop L sub (rds_db c) = Some (ev, db, None)" "queue db sub = skipped @ evs"
    using rds_reading.pop [OF R, of "rds_db c" sub ev "skipped @ evs"] Cons.prems(3) by auto
  have "\<not> is_message ev" using Cons.prems(1) by simp
  note step = Rds_ReadMessage_skip [OF Cons.prems(2) pop(1) this]
  show ?case using Cons.IH [of "c\<lparr>rds_db := db\<rparr>"] Cons.prems(1,2) pop(2) by (simp add: step)
qed

text \<open>
  C14. \<open>ReadMessage\<close> returns: whatever confirmations and empty events the server sends first, it
  skips all of them, delivers the first real message, and takes nothing from the queue beyond it.
\<close>

theorem redis_read_returns:
  assumes "rds_reading A obj S L queue" and "buffer_store store" and "separated mm (slices (rds_wire c))"
    and "rds_sub c = Some sub"
    and "queue (rds_db c) sub = skipped @ \<lparr>Kind = kind, Value = Some (fst (Message_MarshalMsg A am []))\<rparr> # rest"
    and "list_all (\<lambda>ev. \<not> (str_contains (Kind ev) ''message'' \<and> Value ev \<noteq> None)) skipped"
    and "str_contains kind ''message''" and "message_ok obj am"
  shows "\<exists>msg' c' mm'. Rds_ReadMessage L store S c mm msg = Some (msg', c', mm', None) \<and>
    carries mm' msg' am \<and> rds_sub c' = Some sub \<and> queue (rds_db c') sub = rest"
proof -
  let ?ev = "\<lparr>Kind = kind, Value = Some (fst (Message_MarshalMsg A am []))\<rparr>"
  have S: "msgp_decoding A obj S (\<lambda>s. s)" using assms(1) by (rule rds_reading.axioms(1))
  have skip: "list_all (\<lambda>ev. \<not> is_message ev) skipped" using assms(6) by (simp add: is_message_def)
  obtain db where db: "queue db sub = ?ev # rest"
    "Rds_ReadMessage L store S c mm msg = Rds_ReadMessage L store S (c\<lparr>rds_db := db\<rparr>) mm msg"
    using Rds_ReadMessage_skips [OF assms(1) skip assms(4,5)] by blast
  obtain db' where pop: "Sub_Pop L sub db = Some (?ev, db', None)" "queue db' sub = rest"
    using rds_reading.pop [OF assms(1) db(1)] by blast
  have ev: "is_message ?ev" using assms(7) by (simp add: is_message_def)
  have v: "the (Value ?ev) = message_form A am"
    by (simp add: msgp_encoding.Message_MarshalMsg_form [OF msgp_decoding.axioms(1) [OF S]])
  have sep: "separated mm (slices (rds_wire c) @ [])" using assms(3) by simp
  obtain s' where s': "Message_unmarshal S (deref mm (rds_wire c)) (message_form A am) = (am, s', None)"
    using readsE [OF msgp_decoding.Message_unmarshal_reads [OF S assms(8)], of "message_form A am" "[]"] by auto
  obtain z mm1 s1 e1 where d: "Message_unmarshal (mem_in store S) (rds_wire c) (mm, message_form A am) = (z, (mm1, s1), e1)"
    by (metis prod.collapse)
  from buffer_store.decode_with_mem [OF assms(2) sep d [unfolded Message_unmarshal_with]] s'
  have z: "deref mm1 z = am" "e1 = None" "separated mm1 (slices z @ [])"
    by (simp_all add: Message_unmarshal_with tracks_def)
  obtain msg' m' mm2 where f: "FromWire mm1 msg z = (msg', m', mm2)" by (metis prod_cases3)
  let ?c = "c\<lparr>rds_db := db\<rparr>"
  have c: "rds_sub ?c = Some sub" "Sub_Pop L sub (rds_db ?c) = Some (?ev, db', None)"
    "Message_unmarshal (mem_in store S) (rds_wire ?c) (mm, the (Value ?ev)) = (z, (mm1, s1), None)"
    using assms(4) pop(1) d z(2) v by simp_all
  have "Rds_ReadMessage L store S c mm msg = Some (msg', c\<lparr>rds_db := db', rds_wire := m'\<rparr>, mm2, None)"
    using Rds_ReadMessage_message [OF c(1,2) ev c(3) f] db(2) by simp
  with from_wire_carries(1) [OF z(3) f] z(1) pop(2) assms(4) show ?thesis by simp
qed

theorem redis_read_returns_witness:
  "\<exists>msg' c' mm'. Rds_ReadMessage ref_rds_lib (append_store no_spare) ref_in
      (sample_redis [confirmation ''subscribe'', \<lparr>Kind = ''message'', Value = None\<rparr>,
        \<lparr>Kind = ''pmessage'', Value = Some [0x95, 1, 0xa0, 0xc0, 0xc0, 0xc0]\<rparr>, confirmation ''unsubscribe''] 0 (Some ())) []
      plain_call = Some (msg', c', mm', None) \<and>
    carries mm' msg' \<lparr>ID = 1, Func = '''', Args = [], Result = [], Error = None\<rparr> \<and>
    rd_events (rds_db c') = [confirmation ''unsubscribe'']"
proof -
  let ?am = "\<lparr>ID = 1, Func = '''', Args = [], Result = [], Error = None\<rparr> :: bytes message"
  have "fst (Message_MarshalMsg ref_append ?am []) = [0x95, 1, 0xa0, 0xc0, 0xc0, 0xc0]"
    by (simp add: Message_MarshalMsg_def ref_eval)
  moreover have "message_ok mp_obj ?am" by (simp add: message_ok_def str_ok_def)
  moreover have "str_contains ''pmessage'' ''message''" by code_simp
  ultimately show ?thesis
    using redis_read_returns [OF ref_rds.rds_reading_axioms go_store.buffer_store_axioms, of "[]"
        "sample_redis [confirmation ''subscribe'', \<lparr>Kind = ''message'', Value = None\<rparr>,
          \<lparr>Kind = ''pmessage'', Value = Some [0x95, 1, 0xa0, 0xc0, 0xc0, 0xc0]\<rparr>, confirmation ''unsubscribe''] 0 (Some ())"
        "()" "[confirmation ''subscribe'', \<lparr>Kind = ''message'', Value = None\<rparr>]" "''pmessage''" ?am
        "[confirmation ''unsubscribe'']" no_spare plain_call]
    by (auto simp: separated_def slices_def new_Message_def confirmation_def)
qed

text \<open>
  C22. Every connection \<open>WriteMessage\<close> takes from the client's pool is handed back, whether the
  message was published, the publish was refused, or the message was never sent at all.
\<close>

theorem redis_connection_returned_on_every_path:
  assumes "rds_writing A obj L published borrowed"
  shows "borrowed (rds_db (fst (Rds_WriteMessage T A store L pick c st msg))) = borrowed (rds_db c)"
  using redis_returns_connection [OF assms] by (metis prod.collapse)

theorem redis_connection_returned_on_every_path_witness:
  "rd_borrowed (rds_db (fst (redis_write None (sample_redis [] 2 None \<lparr>rds_out := ''''\<rparr>) empty_world sample_call))) = 0 \<and>
   snd (snd (redis_write None (sample_redis [] 2 None \<lparr>rds_out := ''''\<rparr>) empty_world sample_call)) = Some (Lib ErrRange)"
proof
  show "rd_borrowed (rds_db (fst (redis_write None (sample_redis [] 2 None \<lparr>rds_out := ''''\<rparr>) empty_world sample_call))) = 0"
    by (subst redis_connection_returned_on_every_path [OF ref_rds.rds_writing_axioms]) simp
  show "snd (snd (redis_write None (sample_redis [] 2 None \<lparr>rds_out := ''''\<rparr>) empty_world sample_call)) = Some (Lib ErrRange)"
    by (simp add: Rds_WriteMessage_def Message_MarshalMsg_def ref_rds_lib_def write_eval)
qed

text \<open>
  \<open>setupSubscription\<close> is all or nothing: it reports an error exactly when the codec is left
  without a subscription, so the next read tries again from the start.
\<close>

theorem redis_setup_all_or_nothing:
  assumes "rds_sub c = None"
  shows "snd (Rds_setupSubscription L c) = None \<longleftrightarrow> rds_sub (fst (Rds_setupSubscription L c)) \<noteq> None"
  using assms by (auto simp: Rds_setupSubscription_def Let_def split: prod.splits)

theorem redis_setup_all_or_nothing_witness:
  "snd (Rds_setupSubscription ref_rds_lib (sample_redis [] 1 None)) = None \<and>
   rds_sub (fst (Rds_setupSubscription ref_rds_lib (sample_redis [] 1 None \<lparr>rds_in := ''''\<rparr>))) = None"
proof
  show "snd (Rds_setupSubscription ref_rds_lib (sample_redis [] 1 None)) = None"
    by (subst redis_setup_all_or_nothing) (simp_all add: Rds_setupSubscription_def ref_rds_lib_def)
  show "rds_sub (fst (Rds_setupSubscription ref_rds_lib (sample_redis [] 1 None \<lparr>rds_in := ''''\<rparr>))) = None"
    by (simp add: Rds_setupSubscription_def ref_rds_lib_def)
qed

text \<open>What the \<open>Pop\<close>s of a read leave of the client while they return no message, \<open>n\<close> times.\<close>

primrec skip_events :: "('d, 'su, 'cn, 'e) rds_lib \<Rightarrow> 'su \<Rightarrow> nat \<Rightarrow> 'd \<Rightarrow> 'd option" where
  "skip_events L sub 0 db = Some db"
| "skip_events L sub (Suc n) db =
     (case Sub_Pop L sub db of
        Some (ev, db, None) \<Rightarrow> (if is_message ev then None else skip_events L sub n db)
      | _ \<Rightarrow> None)"

lemma Rds_ReadMessage_skip_events:
  "rds_sub c = Some sub \<Longrightarrow> skip_events L sub n (rds_db c) = Some db \<Longrightarrow>
   Rds_ReadMessage L store S c mm msg = Rds_ReadMessage L store S (c\<lparr>rds_db := db\<rparr>) mm msg"
proof (induction n arbitrary: c)
  case 0
  have "c\<lparr>rds_db := rds_db c\<rparr> = c" by simp
  with 0 show ?case by (metis option.inject skip_events.simps(1))
next
  case (Suc n)
  obtain ev db1 where pop: "Sub_Pop L sub (rds_db c) = Some (ev, db1, None)" "\<not> is_message ev"
    and rest: "skip_events L sub n db1 = Some db"
    using Suc.prems(2) by (auto split: option.splits prod.splits if_splits)
  have "Rds_ReadMessage L store S (c\<lparr>rds_db := db1\<rparr>) mm msg = Rds_ReadMessage L store S (c\<lparr>rds_db := db\<rparr>) mm msg"
    using Suc.IH [of "c\<lparr>rds_db := db1\<rparr>"] rest Suc.prems(1) by simp
  with Rds_ReadMessage_skip [OF Suc.prems(1) pop] show ?case by (rule trans)
qed

lemma setup_touches:
  assumes "Rds_setupSubscription L c = (c1, err)" and "rds_sub c = None"
  shows "c1 = c\<lparr>rds_db := rds_db c1, rds_sub := rds_sub c1\<rparr>" and "err = None \<longleftrightarrow> rds_sub c1 \<noteq> None"
  using assms by (auto simp: Rds_setupSubscription_def Let_def split: prod.splits if_splits)

text \<open>
  C29. A read that cannot subscribe, and a read whose \<open>Pop\<close> fails, at once or after it has
  subscribed and skipped any number of confirmations, returns that error: birpc's message and all
  memory are as they were, and of the codec only the client and the subscription changed, which
  is gone. So the next read subscribes anew before it does anything else.
\<close>

theorem redis_read_error_resets:
  assumes "(if rds_sub c = None then Rds_setupSubscription L c else (c, None)) = (c1, serr)"
    and "serr = Some e \<and> db' = rds_db c1 \<or>
      serr = None \<and> skip_events L (the (rds_sub c1)) n (rds_db c1) = Some db \<and> Sub_Pop L (the (rds_sub c1)) db = Some (ev, db', Some e)"
  shows "Rds_ReadMessage L store S c mm msg = Some (msg, c\<lparr>rds_db := db', rds_sub := None\<rparr>, mm, Some e) \<and>
    (\<forall>c2 mm2 msg2. Rds_setupSubscription L (c\<lparr>rds_db := db', rds_sub := None\<rparr>) = (c2, None) \<longrightarrow>
      Rds_ReadMessage L store S (c\<lparr>rds_db := db', rds_sub := None\<rparr>) mm2 msg2 = Rds_ReadMessage L store S c2 mm2 msg2)"
proof -
  have c1: "c1 = c\<lparr>rds_db := rds_db c1, rds_sub := rds_sub c1\<rparr>" and sub: "serr = None \<longleftrightarrow> rds_sub c1 \<noteq> None"
    using assms(1) setup_touches [of L c c1 serr] by (auto split: if_splits)
  have "Rds_ReadMessage L store S c mm msg = Some (msg, c\<lparr>rds_db := db', rds_sub := None\<rparr>, mm, Some e)"
  proof (cases "serr = None")
    case True
    then obtain su where su: "rds_sub c1 = Some su" using sub by auto
    have p: "skip_events L su n (rds_db c1) = Some db" "Sub_Pop L su db = Some (ev, db', Some e)" using assms(2) True su by simp_all
    have "Rds_ReadMessage L store S c mm msg = Rds_ReadMessage L store S c1 mm msg"
      using assms(1) True Rds_ReadMessage_subscribes(2) [of c L c1] by (auto split: if_splits)
    also have "\<dots> = Rds_ReadMessage L store S (c1\<lparr>rds_db := db\<rparr>) mm msg"
      by (rule Rds_ReadMessage_skip_events [OF su p(1)])
    also have "\<dots> = Some (msg, c1\<lparr>rds_db := db', rds_sub := None\<rparr>, mm, Some e)"
      using su p(2) by (simp add: Rds_ReadMessage_at_pop Rds_after_pop_def)
    finally show ?thesis by (subst (asm) c1) simp
  next
    case False
    then have "rds_sub c = None" "Rds_setupSubscription L c = (c1, Some e)" "db' = rds_db c1" "rds_sub c1 = None"
      using assms sub by (auto split: if_splits)
    with c1 show ?thesis by (subst Rds_ReadMessage.simps) simp
  qed
  moreover have "Rds_ReadMessage L store S (c\<lparr>rds_db := db', rds_sub := None\<rparr>) mm2 msg2 = Rds_ReadMessage L store S c2 mm2 msg2"
    if "Rds_setupSubscription L (c\<lparr>rds_db := db', rds_sub := None\<rparr>) = (c2, None)" for c2 mm2 msg2
    by (rule Rds_ReadMessage_subscribes(2) [OF _ that]) simp
  ultimately show ?thesis by blast
qed

text \<open>A server that drops the connection once it has nothing more to say.\<close>

abbreviation dropping_lib :: "(ref_redis, unit, unit, ref_error) rds_lib" where
  "dropping_lib \<equiv> ref_rds_lib\<lparr>Sub_Pop := \<lambda>su d. case rd_events d of
     [] \<Rightarrow> Some (confirmation ''closed'', d, Some (Lib ErrClosed)) | ev # evs \<Rightarrow> Some (ev, d\<lparr>rd_events := evs\<rparr>, None)\<rparr>"

theorem redis_read_error_resets_witness:
  "Rds_ReadMessage dropping_lib (append_store no_spare) ref_in (sample_redis [confirmation ''unsubscribe''] 1 None) [] plain_call =
    Some (plain_call, (sample_redis [] 0 None)\<lparr>rds_db := \<lparr>rd_published = [], rd_events = [], rd_borrowed = 0, rd_free = 0,
      rd_subscribed = [''in'']\<rparr>\<rparr>, [], Some (Lib ErrClosed))"
proof -
  let ?db = "\<lambda>evs. \<lparr>rd_published = [], rd_events = evs, rd_borrowed = 0, rd_free = 0, rd_subscribed = [''in'']\<rparr>"
  let ?c = "sample_redis [confirmation ''unsubscribe''] 1 None"
  let ?c1 = "(sample_redis [] 0 (Some ()))\<lparr>rds_db := ?db [confirmation ''unsubscribe'', confirmation ''subscribe'']\<rparr>"
  have subscribed: "(if rds_sub ?c = None then Rds_setupSubscription dropping_lib ?c else (?c, None)) = (?c1, None)"
    by (simp add: Rds_setupSubscription_def ref_rds_lib_def)
  have fails: "(None :: ref_error goerr option) = Some (Lib ErrClosed) \<and> ?db [] = rds_db ?c1 \<or>
      (None :: ref_error goerr option) = None \<and> skip_events dropping_lib (the (rds_sub ?c1)) 2 (rds_db ?c1) = Some (?db []) \<and>
      Sub_Pop dropping_lib (the (rds_sub ?c1)) (?db []) = Some (confirmation ''closed'', ?db [], Some (Lib ErrClosed))"
    by (simp add: eval_nat_numeral is_message_def confirmation_def)
  show ?thesis using redis_read_error_resets [OF subscribed fails, THEN conjunct1] by simp
qed

text \<open>
  C34. \<open>Close\<close> ends the subscription: afterwards there is none, closing again is a no-op that
  succeeds, the subscription is closed even when unsubscribing failed, and the first error of the
  two is the one reported.
\<close>

theorem redis_close_ends_subscription:
  "rds_sub (fst (Rds_Close L c)) = None \<and> Rds_Close L (fst (Rds_Close L c)) = (fst (Rds_Close L c), None) \<and>
   (case rds_sub c of
      None \<Rightarrow> Rds_Close L c = (c, None)
    | Some sub \<Rightarrow>
        (let (db, uerr) = Sub_Unsubscribe L sub (rds_in c) (rds_db c); (db, cerr) = Sub_Close L sub db
         in rds_db (fst (Rds_Close L c)) = db \<and> snd (Rds_Close L c) = (if uerr = None then cerr else uerr)))"
  by (auto simp: Rds_Close_def Let_def split: option.split prod.split)

text \<open>
  C39. The buffer \<open>WriteMessage\<close> marshals into is never let go of: on every path, also when the
  message is refused, no connection can be had or the publish fails, its capacity afterwards is
  at least what it was before, with no bound like the one on the buffers of the wire messages. A
  write that got past \<open>ToWire\<close> leaves it at least as large as the message, published or not.
\<close>

theorem redis_buffer_never_shrinks:
  assumes "msgp_encoding A obj" and "Rds_WriteMessage T A (append_store grow) L pick c st msg = (c', st', err)"
  shows "go_cap (rds_buf c) \<le> go_cap (rds_buf c') \<and>
    (\<forall>m' mm. ToWire T A (append_store grow) (w_mem st) (fst (GetMessage pick (w_pool st))) msg = (m', mm, None) \<longrightarrow>
      length (fst (Message_MarshalMsg A (deref mm m') [])) = go_len (rds_buf c') \<and> go_len (rds_buf c') \<le> go_cap (rds_buf c')) \<and>
    (err = None \<longrightarrow> go_len (rds_buf c') \<le> go_cap (rds_buf c'))"
proof -
  have grows: "go_cap s \<le> go_cap s' \<and> go_len s' \<le> go_cap s' \<and> go_len s' = length bs" if "append_store grow mm (reslice0 s) bs = (s', mm')" for s s' mm mm' bs
    using that by (cases s) (auto simp: append_store_Nil append_store_Slice Let_def split: if_splits)
  obtain m pool' m' mm e1 mm' where t: "GetMessage pick (w_pool st) = (m, pool')"
      "ToWire T A (append_store grow) (w_mem st) m msg = (m', mm, e1)"
    and refused: "e1 \<noteq> None \<Longrightarrow> err = e1 \<and> c' = c \<and> mm' = mm"
    and sent: "e1 = None \<Longrightarrow> rds_outcome A (append_store grow) L mm (deref mm m') c c' mm' err"
    using Rds_WriteMessage_cases [OF assms] by metis
  have "go_cap (rds_buf c) \<le> go_cap (rds_buf c') \<and> go_len (rds_buf c') \<le> go_cap (rds_buf c') \<and>
      length (message_form A (deref mm m')) = go_len (rds_buf c')" if "e1 = None"
  proof -
    obtain b db where b: "append_store grow mm (reslice0 (rds_buf c)) (message_form A (deref mm m')) = (b, mm')"
      "c' = c\<lparr>rds_buf := b, rds_db := db\<rparr>"
      using sent \<open>e1 = None\<close> by (auto simp: rds_outcome_def)
    with grows [OF b(1)] show ?thesis by simp
  qed
  with refused t show ?thesis
    by (cases "e1 = None") (auto simp: msgp_encoding.Message_MarshalMsg_form [OF assms(1)])
qed

text \<open>No connection to publish with: the write fails, and the buffer has grown all the same.\<close>

lemma call_not_published:
  "redis_write None (sample_redis [] 0 None) empty_world sample_call =
     ((sample_redis [] 0 None)\<lparr>rds_buf := Slice 1 26 26\<rparr>,
      \<lparr>w_mem = [[0x83, 0xa1, 0x61, 20, 0xa1, 0x62, 0xfd, 0xa1, 0x73, 0xa2, 0x68, 0x69], redis_call],
       w_pool = [\<lparr>ID = 7, Func = ''Arith.Add'', Args = Slice 0 0 12, Result = SliceNil, Error = None\<rparr>]\<rparr>, Some (Lib ErrClosed))"
  by (simp add: Rds_WriteMessage_def Message_MarshalMsg_def ref_rds_lib_def write_eval)

theorem redis_buffer_never_shrinks_witness:
  "go_cap (rds_buf (sample_redis [] 0 None)) \<le> go_cap (rds_buf (fst (redis_write None (sample_redis [] 0 None) empty_world sample_call))) \<and>
   go_cap (rds_buf (fst (redis_write None (sample_redis [] 0 None) empty_world sample_call))) = 26"
  using redis_buffer_never_shrinks [OF ref.msgp_encoding_axioms call_not_published] call_not_published by simp

text \<open>
  C38. \<open>Close\<close> does not end a reader that waits in \<open>Pop\<close>: when the first thing its subscription
  then delivers is a confirmation, and the unsubscribing that \<open>Close\<close> does asks the server for
  one, the read goes on as a read of a codec that has subscribed again, although the codec was
  closed without a subscription.
\<close>

theorem redis_blocked_reader_survives_close:
  assumes "rds_sub c = Some sub" and "Rds_Close L c = (c1, cerr)"
    and "Sub_Pop L sub (rds_db c1) = Some (ev, db, None)"
    and "\<not> (str_contains (Kind ev) ''message'' \<and> Value ev \<noteq> None)"
    and "Rds_setupSubscription L (c1\<lparr>rds_db := db\<rparr>) = (c2, None)"
  shows "rds_sub c1 = None \<and> rds_sub c2 \<noteq> None \<and>
    Rds_after_pop L store S c1 mm msg (ev, db, None) = Rds_ReadMessage L store S c2 mm msg"
proof -
  have c1: "rds_sub (c1\<lparr>rds_db := db\<rparr>) = None"
    using assms(1,2) by (auto simp: Rds_Close_def Let_def split: prod.splits)
  from Rds_ReadMessage_subscribes [OF c1 assms(5)] show ?thesis
    using c1 assms(4) by (auto simp: Rds_after_pop_def)
qed

lemma closed_then_confirmed:
  "Rds_Close ref_rds_lib (sample_redis [] 0 (Some ())) =
     ((sample_redis [] 0 None)\<lparr>rds_db := \<lparr>rd_published = [], rd_events = [confirmation ''unsubscribe''], rd_borrowed = 0,
        rd_free = 1, rd_subscribed = []\<rparr>\<rparr>, None)"
  "Sub_Pop ref_rds_lib () \<lparr>rd_published = [], rd_events = [confirmation ''unsubscribe''], rd_borrowed = 0, rd_free = 1,
     rd_subscribed = []\<rparr> =
     Some (confirmation ''unsubscribe'', \<lparr>rd_published = [], rd_events = [], rd_borrowed = 0, rd_free = 1, rd_subscribed = []\<rparr>, None)"
  "Rds_setupSubscription ref_rds_lib ((sample_redis [] 0 None)\<lparr>rds_db := \<lparr>rd_published = [], rd_events = [], rd_borrowed = 0,
     rd_free = 1, rd_subscribed = []\<rparr>\<rparr>) =
     ((sample_redis [] 0 (Some ()))\<lparr>rds_db := \<lparr>rd_published = [], rd_events = [confirmation ''subscribe''], rd_borrowed = 0,
        rd_free = 0, rd_subscribed = [''in'']\<rparr>\<rparr>, None)"
  by (simp_all add: Rds_Close_def Rds_setupSubscription_def ref_rds_lib_def)

theorem redis_blocked_reader_survives_close_witness:
  "Rds_after_pop ref_rds_lib (append_store no_spare) ref_in
      (fst (Rds_Close ref_rds_lib (sample_redis [] 0 (Some ())))) [] plain_call
      (confirmation ''unsubscribe'', \<lparr>rd_published = [], rd_events = [], rd_borrowed = 0, rd_free = 1, rd_subscribed = []\<rparr>, None) =
    Rds_ReadMessage ref_rds_lib (append_store no_spare) ref_in
      ((sample_redis [] 0 (Some ()))\<lparr>rds_db := \<lparr>rd_published = [], rd_events = [confirmation ''subscribe''], rd_borrowed = 0,
        rd_free = 0, rd_subscribed = [''in'']\<rparr>\<rparr>) [] plain_call"
proof -
  let ?ev = "confirmation ''unsubscribe''"
  let ?c1 = "fst (Rds_Close ref_rds_lib (sample_redis [] 0 (Some ())))"
  let ?db = "\<lparr>rd_published = [], rd_events = [], rd_borrowed = 0, rd_free = 1, rd_subscribed = []\<rparr>"
  let ?c2 = "(sample_redis [] 0 (Some ()))\<lparr>rds_db := \<lparr>rd_published = [], rd_events = [confirmation ''subscribe''], rd_borrowed = 0,
    rd_free = 0, rd_subscribed = [''in'']\<rparr>\<rparr>"
  have close: "Rds_Close ref_rds_lib (sample_redis [] 0 (Some ())) = (?c1, None)"
    by (simp add: closed_then_confirmed(1) del: One_nat_def)
  have pop: "Sub_Pop ref_rds_lib () (rds_db ?c1) = Some (?ev, ?db, None)"
    by (simp add: closed_then_confirmed(1,2) del: One_nat_def)
  have again: "Rds_setupSubscription ref_rds_lib (?c1\<lparr>rds_db := ?db\<rparr>) = (?c2, None)"
    using closed_then_confirmed(3) by (simp add: closed_then_confirmed(1) del: One_nat_def)
  show ?thesis
    by (rule redis_blocked_reader_survives_close [OF _ close pop _ again, THEN conjunct2, THEN conjunct2])
      (simp_all add: confirmation_def)
qed

end
