(* ===== verification/Chat_Gen.thy ===== *)
theory Chat_Gen
  imports Map_Codec Codec Msgpack_Ref
begin

text \<open>
  \<open>examples/chat/main_gen.go\<close>: the generated codecs of the chat's messages, with the types of
  \<open>main.go\<close> they belong to. All three keep the contracts of theory \<open>Map_Codec\<close>.
\<close>

section \<open>Types\<close>

record incoming =
  in_From :: string
  in_Message :: string

record outgoing =
  out_Time :: u32
  out_From :: string
  out_Message :: string

datatype nothing = Nothing \<comment> \<open>\<open>struct{}\<close>\<close>

lemma nothing_eq [simp]: "(z = v) = True" for z v :: nothing
  by (cases z; cases v) simp

section \<open>The codec of Incoming\<close>

definition Incoming_Msgsize :: "'e msgp_append \<Rightarrow> incoming \<Rightarrow> nat" where
  "Incoming_Msgsize A z = 1 + 5 + StringPrefixSize A + length (in_From z) + 8 + StringPrefixSize A + length (in_Message z)"

definition Incoming_MarshalMsg :: "'e msgp_append \<Rightarrow> incoming \<Rightarrow> bytes \<Rightarrow> bytes \<times> 'e goerr option" where
  "Incoming_MarshalMsg A z b =
     (let ob = Require A b (Incoming_Msgsize A z);
          ob = ob @ [0x82, 0xa4, 0x66, 0x72, 0x6f, 0x6d];
          ob = AppendString A ob (in_From z);
          ob = ob @ [0xa7, 0x6d, 0x65, 0x73, 0x73, 0x61, 0x67, 0x65];
          ob = AppendString A ob (in_Message z)
      in (ob, None))"

definition Incoming_EncodeMsg :: "('w, 'e) msgp_out \<Rightarrow> incoming \<Rightarrow> 'w \<Rightarrow> 'w \<times> 'e goerr option" where
  "Incoming_EncodeMsg W z en =
     (let (en, err) = Append W en [0x82, 0xa4, 0x66, 0x72, 0x6f, 0x6d] in
      if err \<noteq> None then (en, err) else
      let (en, err) = WriteString W en (in_From z) in
      if err \<noteq> None then (en, wrap err [''From'']) else
      let (en, err) = Append W en [0xa7, 0x6d, 0x65, 0x73, 0x73, 0x61, 0x67, 0x65] in
      if err \<noteq> None then (en, err) else
      let (en, err) = WriteString W en (in_Message z) in
      if err \<noteq> None then (en, wrap err [''Message'']) else
      (en, None))"

definition Incoming_switch ::
    "('s, 'raw, 'e) msgp_in \<Rightarrow> string \<Rightarrow> incoming \<Rightarrow> 's \<Rightarrow> incoming \<times> 's \<times> 'e goerr option" where
  "Incoming_switch S field z s =
     (if field = ''from'' then read_field (ReadString S) (\<lambda>v z. z\<lparr>in_From := v\<rparr>) ''From'' z s
      else if field = ''message'' then read_field (ReadString S) (\<lambda>v z. z\<lparr>in_Message := v\<rparr>) ''Message'' z s
      else skip_field S z s)"

definition Incoming_DecodeMsg ::
    "('s, 'raw, 'e) msgp_in \<Rightarrow> incoming \<Rightarrow> 's \<Rightarrow> incoming \<times> 's \<times> 'e goerr option" where
  "Incoming_DecodeMsg S z dc = decode_map S (Incoming_switch S) z dc"

definition Incoming_UnmarshalMsg ::
    "(bytes, 'raw, 'e) msgp_in \<Rightarrow> incoming \<Rightarrow> bytes \<Rightarrow> incoming \<times> bytes \<times> 'e goerr option" where
  "Incoming_UnmarshalMsg S z bts = unmarshal_map S (Incoming_switch S) z bts"

text \<open>The encoding as a list of map entries.\<close>

definition Incoming_entries :: "'e msgp_append \<Rightarrow> incoming \<Rightarrow> incoming entry list" where
  "Incoming_entries A v = [(''from'', AppendString A [] (in_From v), \<lambda>z. z\<lparr>in_From := in_From v\<rparr>),
     (''message'', AppendString A [] (in_Message v), \<lambda>z. z\<lparr>in_Message := in_Message v\<rparr>)]"

section \<open>The codec of Outgoing\<close>

definition Outgoing_Msgsize :: "'e msgp_append \<Rightarrow> outgoing \<Rightarrow> nat" where
  "Outgoing_Msgsize A z = 1 + 5 + Uint32Size A + 5 + StringPrefixSize A + length (out_From z) + 8 + StringPrefixSize A + length (out_Message z)"

definition Outgoing_MarshalMsg :: "'e msgp_append \<Rightarrow> outgoing \<Rightarrow> bytes \<Rightarrow> bytes \<times> 'e goerr option" where
  "Outgoing_MarshalMsg A z b =
     (let ob = Require A b (Outgoing_Msgsize A z);
          ob = ob @ [0x83, 0xa4, 0x74, 0x69, 0x6d, 0x65];
          ob = AppendUint32 A ob (out_Time z);
          ob = ob @ [0xa4, 0x66, 0x72, 0x6f, 0x6d];
          ob = AppendString A ob (out_From z);
          ob = ob @ [0xa7, 0x6d, 0x65, 0x73, 0x73, 0x61, 0x67, 0x65];
          ob = AppendString A ob (out_Message z)
      in (ob, None))"

definition Outgoing_EncodeMsg :: "('w, 'e) msgp_out \<Rightarrow> outgoing \<Rightarrow> 'w \<Rightarrow> 'w \<times> 'e goerr option" where
  "Outgoing_EncodeMsg W z en =
     (let (en, err) = Append W en [0x83, 0xa4, 0x74, 0x69, 0x6d, 0x65] in
      if err \<noteq> None then (en, err) else
      let (en, err) = WriteUint32 W en (out_Time z) in
      if err \<noteq> None then (en, wrap err [''Time'']) else
      let (en, err) = Append W en [0xa4, 0x66, 0x72, 0x6f, 0x6d] in
      if err \<noteq> None then (en, err) else
      let (en, err) = WriteString W en (out_From z) in
      if err \<noteq> None then (en, wrap err [''From'']) else
      let (en, err) = Append W en [0xa7, 0x6d, 0x65, 0x73, 0x73, 0x61, 0x67, 0x65] in
      if err \<noteq> None then (en, err) else
      let (en, err) = WriteString W en (out_Message z) in
      if err \<noteq> None then (en, wrap err [''Message'']) else
      (en, None))"

definition Outgoing_switch ::
    "('s, 'raw, 'e) msgp_in \<Rightarrow> string \<Rightarrow> outgoing \<Rightarrow> 's \<Rightarrow> outgoing \<times> 's \<times> 'e goerr option" where
  "Outgoing_switch S field z s =
     (if field = ''time'' then read_field (ReadUint32 S) (\<lambda>v z. z\<lparr>out_Time := v\<rparr>) ''Time'' z s
      else if field = ''from'' then read_field (ReadString S) (\<lambda>v z. z\<lparr>out_From := v\<rparr>) ''From'' z s
      else if field = ''message'' then read_field (ReadString S) (\<lambda>v z. z\<lparr>out_Message := v\<rparr>) ''Message'' z s
      else skip_field S z s)"

definition Outgoing_DecodeMsg ::
    "('s, 'raw, 'e) msgp_in \<Rightarrow> outgoing \<Rightarrow> 's \<Rightarrow> outgoing \<times> 's \<times> 'e goerr option" where
  "Outgoing_DecodeMsg S z dc = decode_map S (Outgoing_switch S) z dc"

definition Outgoing_UnmarshalMsg ::
    "(bytes, 'raw, 'e) msgp_in \<Rightarrow> outgoing \<Rightarrow> bytes \<Rightarrow> outgoing \<times> bytes \<times> 'e goerr option" where
  "Outgoing_UnmarshalMsg S z bts = unmarshal_map S (Outgoing_switch S) z bts"

text \<open>The encoding as a list of map entries.\<close>

definition Outgoing_entries :: "'e msgp_append \<Rightarrow> outgoing \<Rightarrow> outgoing entry list" where
  "Outgoing_entries A v = [(''time'', AppendUint32 A [] (out_Time v), \<lambda>z. z\<lparr>out_Time := out_Time v\<rparr>),
     (''from'', AppendString A [] (out_From v), \<lambda>z. z\<lparr>out_From := out_From v\<rparr>),
     (''message'', AppendString A [] (out_Message v), \<lambda>z. z\<lparr>out_Message := out_Message v\<rparr>)]"

section \<open>The codec of nothing\<close>

definition Nothing_Msgsize :: "'e msgp_append \<Rightarrow> nothing \<Rightarrow> nat" where
  "Nothing_Msgsize A z = 1"

definition Nothing_MarshalMsg :: "'e msgp_append \<Rightarrow> nothing \<Rightarrow> bytes \<Rightarrow> bytes \<times> 'e goerr option" where
  "Nothing_MarshalMsg A z b =
     (let ob = Require A b (Nothing_Msgsize A z);
          ob = ob @ [0x80]
      in (ob, None))"

definition Nothing_EncodeMsg :: "('w, 'e) msgp_out \<Rightarrow> nothing \<Rightarrow> 'w \<Rightarrow> 'w \<times> 'e goerr option" where
  "Nothing_EncodeMsg W z en =
     (let (en, err) = Append W en [0x80] in
      if err \<noteq> None then (en, err) else
      (en, None))"

definition Nothing_switch ::
    "('s, 'raw, 'e) msgp_in \<Rightarrow> string \<Rightarrow> nothing \<Rightarrow> 's \<Rightarrow> nothing \<times> 's \<times> 'e goerr option" where
  "Nothing_switch S field z s =
     (skip_field S z s)"

definition Nothing_DecodeMsg ::
    "('s, 'raw, 'e) msgp_in \<Rightarrow> nothing \<Rightarrow> 's \<Rightarrow> nothing \<times> 's \<times> 'e goerr option" where
  "Nothing_DecodeMsg S z dc = decode_map S (Nothing_switch S) z dc"

definition Nothing_UnmarshalMsg ::
    "(bytes, 'raw, 'e) msgp_in \<Rightarrow> nothing \<Rightarrow> bytes \<Rightarrow> nothing \<times> bytes \<times> 'e goerr option" where
  "Nothing_UnmarshalMsg S z bts = unmarshal_map S (Nothing_switch S) z bts"

text \<open>The encoding as a list of map entries.\<close>

definition Nothing_entries :: "'e msgp_append \<Rightarrow> nothing \<Rightarrow> nothing entry list" where
  "Nothing_entries A v = []"

section \<open>The codecs keep the contract\<close>

definition Incoming_ok :: "incoming \<Rightarrow> bool" where
  "Incoming_ok v \<longleftrightarrow> str_ok (in_From v) \<and> str_ok (in_Message v)"

definition Outgoing_ok :: "outgoing \<Rightarrow> bool" where
  "Outgoing_ok v \<longleftrightarrow> str_ok (out_From v) \<and> str_ok (out_Message v)"

definition Nothing_ok :: "nothing \<Rightarrow> bool" where
  "Nothing_ok v \<longleftrightarrow> True"

lemma Incoming_switch_keys:
  "Incoming_switch S ''from'' z = read_field (ReadString S) (\<lambda>v z. z\<lparr>in_From := v\<rparr>) ''From'' z"
  "Incoming_switch S ''message'' z = read_field (ReadString S) (\<lambda>v z. z\<lparr>in_Message := v\<rparr>) ''Message'' z"
  "k \<notin> {''from'', ''message''} \<Longrightarrow> Incoming_switch S k z = skip_field S z"
  by (auto simp: Incoming_switch_def)

lemma Outgoing_switch_keys:
  "Outgoing_switch S ''time'' z = read_field (ReadUint32 S) (\<lambda>v z. z\<lparr>out_Time := v\<rparr>) ''Time'' z"
  "Outgoing_switch S ''from'' z = read_field (ReadString S) (\<lambda>v z. z\<lparr>out_From := v\<rparr>) ''From'' z"
  "Outgoing_switch S ''message'' z = read_field (ReadString S) (\<lambda>v z. z\<lparr>out_Message := v\<rparr>) ''Message'' z"
  "k \<notin> {''time'', ''from'', ''message''} \<Longrightarrow> Outgoing_switch S k z = skip_field S z"
  by (auto simp: Outgoing_switch_def)

lemma Nothing_switch_keys:
  "Nothing_switch S k z = skip_field S z"
  by (auto simp: Nothing_switch_def)

sublocale msgp_encoding \<subseteq> inc: map_codec A obj Incoming_ok "Incoming_entries A" "Incoming_MarshalMsg A" "Incoming_Msgsize A"
proof
  show "length (map_form (Incoming_entries A v)) \<le> Incoming_Msgsize A v" if "Incoming_ok v" for v
    using that size_string [of "in_From v"]
      size_string [of "in_Message v"]
    by (simp add: Incoming_ok_def Incoming_entries_def wire_simps Incoming_Msgsize_def)
qed (simp_all add: Incoming_ok_def Incoming_entries_def wire_simps Incoming_MarshalMsg_def require obj_string)

sublocale msgp_encoding \<subseteq> outg: map_codec A obj Outgoing_ok "Outgoing_entries A" "Outgoing_MarshalMsg A" "Outgoing_Msgsize A"
proof
  show "length (map_form (Outgoing_entries A v)) \<le> Outgoing_Msgsize A v" if "Outgoing_ok v" for v
    using that size_uint32 [of "out_Time v"]
      size_string [of "out_From v"]
      size_string [of "out_Message v"]
    by (simp add: Outgoing_ok_def Outgoing_entries_def wire_simps Outgoing_Msgsize_def)
qed (simp_all add: Outgoing_ok_def Outgoing_entries_def wire_simps Outgoing_MarshalMsg_def require obj_string obj_uint32)

sublocale msgp_encoding \<subseteq> noth: map_codec A obj Nothing_ok "Nothing_entries A" "Nothing_MarshalMsg A" "Nothing_Msgsize A"
  by unfold_locales
    (simp_all add: Nothing_ok_def Nothing_entries_def wire_simps Nothing_MarshalMsg_def Nothing_Msgsize_def require)

sublocale msgp_decoding \<subseteq> inc: map_decoder A obj Incoming_ok "Incoming_entries A" "Incoming_MarshalMsg A" "Incoming_Msgsize A"
    S view "Incoming_switch S"
  by unfold_locales
    (auto simp: Incoming_ok_def Incoming_entries_def entry_ok_def Incoming_switch_keys intro: read_field_reads read_string)

sublocale msgp_decoding \<subseteq> outg: map_decoder A obj Outgoing_ok "Outgoing_entries A" "Outgoing_MarshalMsg A" "Outgoing_Msgsize A"
    S view "Outgoing_switch S"
  by unfold_locales
    (auto simp: Outgoing_ok_def Outgoing_entries_def entry_ok_def Outgoing_switch_keys intro: read_field_reads read_string read_uint32)

sublocale msgp_decoding \<subseteq> noth: map_decoder A obj Nothing_ok "Nothing_entries A" "Nothing_MarshalMsg A" "Nothing_Msgsize A"
    S view "Nothing_switch S"
  by unfold_locales
    (auto simp: Nothing_ok_def Nothing_entries_def entry_ok_def Nothing_switch_keys)

context msgp_encoding
begin

lemmas Incoming_codec = inc.map_codec_axioms
lemmas Outgoing_codec = outg.map_codec_axioms
lemmas Nothing_codec = noth.map_codec_axioms

end

context msgp_decoding
begin

lemmas Incoming_decoder = inc.map_decoder_axioms
lemmas Outgoing_decoder = outg.map_decoder_axioms
lemmas Nothing_decoder = noth.map_decoder_axioms

end

lemma Incoming_type: "msgp_decoding A obj S (\<lambda>s. s) \<Longrightarrow> msgp_type obj Incoming_ok (Incoming_MarshalMsg A) (Incoming_UnmarshalMsg S)"
  by (rule msgp_type_of_decoder [OF msgp_decoding.Incoming_decoder], assumption) (simp add: fun_eq_iff Incoming_UnmarshalMsg_def)

interpretation ref_incoming: msgp_type mp_obj Incoming_ok "Incoming_MarshalMsg ref_append" "Incoming_UnmarshalMsg ref_in"
  by (rule Incoming_type [OF ref.msgp_decoding_axioms])

lemma Outgoing_type: "msgp_decoding A obj S (\<lambda>s. s) \<Longrightarrow> msgp_type obj Outgoing_ok (Outgoing_MarshalMsg A) (Outgoing_UnmarshalMsg S)"
  by (rule msgp_type_of_decoder [OF msgp_decoding.Outgoing_decoder], assumption) (simp add: fun_eq_iff Outgoing_UnmarshalMsg_def)

interpretation ref_outgoing: msgp_type mp_obj Outgoing_ok "Outgoing_MarshalMsg ref_append" "Outgoing_UnmarshalMsg ref_in"
  by (rule Outgoing_type [OF ref.msgp_decoding_axioms])

lemma Nothing_type: "msgp_decoding A obj S (\<lambda>s. s) \<Longrightarrow> msgp_type obj Nothing_ok (Nothing_MarshalMsg A) (Nothing_UnmarshalMsg S)"
  by (rule msgp_type_of_decoder [OF msgp_decoding.Nothing_decoder], assumption) (simp add: fun_eq_iff Nothing_UnmarshalMsg_def)

interpretation ref_nothing: msgp_type mp_obj Nothing_ok "Nothing_MarshalMsg ref_append" "Nothing_UnmarshalMsg ref_in"
  by (rule Nothing_type [OF ref.msgp_decoding_axioms])

context msgp_writing
begin

lemma Incoming_EncodeMsg_writes: "writes out (Incoming_EncodeMsg W v) (map_form (Incoming_entries A v))"
  unfolding writes_def Incoming_EncodeMsg_def Let_def
  by (auto dest!: write_dests simp: Incoming_entries_def wire_simps split: prod.splits if_splits)

lemma Outgoing_EncodeMsg_writes: "writes out (Outgoing_EncodeMsg W v) (map_form (Outgoing_entries A v))"
  unfolding writes_def Outgoing_EncodeMsg_def Let_def
  by (auto dest!: write_dests simp: Outgoing_entries_def wire_simps split: prod.splits if_splits)

lemma Nothing_EncodeMsg_writes: "writes out (Nothing_EncodeMsg W v) (map_form (Nothing_entries A v))"
  unfolding writes_def Nothing_EncodeMsg_def Let_def
  by (auto dest!: write_dests simp: Nothing_entries_def wire_simps split: prod.splits if_splits)

end

end
