(* ===== verification/Chat.thy ===== *)
theory Chat
  imports Chat_Gen
begin

text \<open>
  \<open>examples/chat/main.go\<close>: the RPC method \<open>Chat.Message\<close>, and \<open>serve\<close>, which pumps broadcasts at
  one websocket. \<open>serve\<close> and the goroutine it starts run beside the broadcast topic
  (\<open>tv42/topic\<close>), so they are modelled as a step relation in which any of the three makes the
  next move. A step is one statement that another goroutine can observe.

  The topic is not part of the repository. What it may do here is what the types allow: put a
  message into a channel that has room, or unregister a consumer that is too slow. What
  \<open>Unregister\<close> does to the registration and the channel is the parameter \<open>unreg\<close>; the comment in
  \<open>serve\<close> says what is relied on: \<open>unregistering closes the channel\<close>.
\<close>

section \<open>The method\<close>

text \<open>\<open>now\<close> is \<open>time.Now().Unix()\<close>, \<open>broadcast\<close> what was sent to \<open>c.broadcast.Broadcast\<close> so far.\<close>

definition Chat_Message :: "i64 \<Rightarrow> incoming \<Rightarrow> outgoing list \<Rightarrow> outgoing list \<times> 'e goerr option" where
  "Chat_Message now msg broadcast =
     (broadcast @ [\<lparr>out_Time = ucast now, out_From = in_From msg, out_Message = in_Message msg\<rparr>], None)"

definition greeting :: "i64 \<Rightarrow> outgoing" where
  "greeting now = \<lparr>out_Time = ucast now, out_From = ''Server'', out_Message = ''HELLO FROM SERVER''\<rparr>"

text \<open>
  The service object. \<open>topic.New\<close>, \<open>birpc.NewRegistry\<close> and \<open>RegisterService\<close> are parameters; the
  upgrader is left as its zero value.
\<close>

record ('topic, 'registry, 'upgrader) chat =
  broadcast_topic :: 'topic
  registry :: 'registry
  upgrader :: 'upgrader

definition newChat ::
    "'topic \<Rightarrow> 'registry \<Rightarrow> 'upgrader \<Rightarrow> ('registry \<Rightarrow> ('topic, 'registry, 'upgrader) chat \<Rightarrow> 'registry)
       \<Rightarrow> ('topic, 'registry, 'upgrader) chat" where
  "newChat topic_New birpc_NewRegistry zero RegisterService =
     (let c = \<lparr>broadcast_topic = topic_New, registry = birpc_NewRegistry, upgrader = zero\<rparr>
      in c\<lparr>registry := RegisterService (registry c) c\<rparr>)"

section \<open>What the service sends and receives\<close>

text \<open>
  The values that pass through \<open>interface{}\<close>: \<open>serve\<close> gives \<open>endpoint.Go\<close> an \<open>Outgoing\<close> by value,
  birpc unmarshals into pointers to the parameter types of \<open>Chat.Message\<close>. The generated
  encoders have value receivers and the decoders pointer receivers, so a plain \<open>Outgoing\<close> can be
  marshaled but not unmarshaled into.
\<close>

datatype chat_value = VOutgoing outgoing | PIncoming incoming | PNothing nothing

definition chat_types ::
    "'e msgp_append \<Rightarrow> (bytes, bytes, 'e) msgp_in \<Rightarrow> (chat_value, 'e) go_types" where
  "chat_types A S = \<lparr>
     marshaler = (\<lambda>v. case v of
         VOutgoing m \<Rightarrow> Some (Outgoing_MarshalMsg A m [])
       | PIncoming m \<Rightarrow> Some (Incoming_MarshalMsg A m [])
       | PNothing m \<Rightarrow> Some (Nothing_MarshalMsg A m [])),
     unmarshaler = (\<lambda>v. case v of
         VOutgoing m \<Rightarrow> None
       | PIncoming m \<Rightarrow> Some (\<lambda>b. case Incoming_UnmarshalMsg S m b of (m, left, err) \<Rightarrow> (PIncoming m, left, err))
       | PNothing m \<Rightarrow> Some (\<lambda>b. case Nothing_UnmarshalMsg S m b of (m, left, err) \<Rightarrow> (PNothing m, left, err))),
     type_name = (\<lambda>v. case v of
         VOutgoing m \<Rightarrow> ''main.Outgoing'' | PIncoming m \<Rightarrow> ''*main.Incoming'' | PNothing m \<Rightarrow> ''*main.nothing'')\<rparr>"

text \<open>\<open>endpoint.Go("Chat.Message", msg, nil, nil)\<close> makes this message; birpc picks the identifier.\<close>

definition chat_call :: "u64 \<Rightarrow> outgoing \<Rightarrow> chat_value birpc_message" where
  "chat_call i m = \<lparr>msg_ID = i, msg_Func = ''Chat.Message'', msg_Args = IVal (VOutgoing m), msg_Result = INil, msg_Error = None\<rparr>"

text \<open>What the other side's \<open>Chat.Message\<close> takes from a broadcast.\<close>

definition as_incoming :: "outgoing \<Rightarrow> incoming" where
  "as_incoming m = \<lparr>in_From = out_From m, in_Message = out_Message m\<rparr>"

context msgp_decoding
begin

lemma Outgoing_read_as_Incoming:
  assumes "Outgoing_ok m"
  shows "reads view (decode_map S (Incoming_switch S) z) (map_form (Outgoing_entries A m)) (as_incoming m)"
proof -
  let ?es = "[(''time'', AppendUint32 A [] (out_Time m), \<lambda>z. z), (''from'', AppendString A [] (out_From m), \<lambda>z. z\<lparr>in_From := out_From m\<rparr>),
    (''message'', AppendString A [] (out_Message m), \<lambda>z. z\<lparr>in_Message := out_Message m\<rparr>)]"
  have "list_all (entry_ok view (Incoming_switch S)) ?es"
    using assms by (auto simp: entry_ok_def Incoming_switch_keys Outgoing_ok_def intro: skip_field_reads obj_uint32 read_field_reads read_string)
  from decode_map_reads [OF _ this, of z] show ?thesis
    by (cases z) (simp add: as_incoming_def Outgoing_entries_def map_form_def entry_form_def)
qed

end

lemma chat_call_travels:
  assumes S: "msgp_decoding A obj S (\<lambda>s. s)" and ok: "Outgoing_ok m"
  shows "message_travels (chat_types A S) obj (chat_call i m) (PIncoming z) (PIncoming (as_incoming m)) (PNothing n) (PNothing n)"
proof -
  note p = msgp_type.payload [OF Outgoing_type [OF S] ok]
  have "fst (Outgoing_MarshalMsg A m []) = map_form (Outgoing_entries A m)"
    using map_codec.marshal_form [OF msgp_encoding.Outgoing_codec [OF msgp_decoding.axioms(1) [OF S]], of m "[]"] by simp
  then have "Incoming_UnmarshalMsg S z (fst (Outgoing_MarshalMsg A m [])) = (as_incoming m, [], None)"
    using reads_exactly [OF msgp_decoding.Outgoing_read_as_Incoming [OF S ok, of z], of "[]"]
    by (simp add: Incoming_UnmarshalMsg_def unmarshal_map_def)
  with p show ?thesis
    by (auto simp: message_travels_def chat_call_def chat_types_def str_ok_def prod_eq_iff case_prod_beta)
qed

section \<open>Serving a connection\<close>

datatype serve_at = Upgrading | Registering | Greeting | Spawning | Serving | Leaving | Returned

datatype pump_at = NotStarted | Ranging | Holding outgoing | Kicking | Unregistering | Ended

record connection =
  at_serve :: serve_at
  at_pump :: pump_at
  registered :: bool
  closed :: bool                  \<comment> \<open>the channel \<open>messages\<close>\<close>
  buffer :: "outgoing list"       \<comment> \<open>what is in it\<close>
  calls :: "outgoing list"        \<comment> \<open>\<open>endpoint.Go("Chat.Message", _)\<close>, in order\<close>
  ws_closed :: bool
  put_in :: "outgoing list"       \<comment> \<open>history: all the topic ever put into the channel\<close>
  forwarded :: "outgoing list"    \<comment> \<open>history: what the pump passed to \<open>endpoint.Go\<close>\<close>

definition chan_size :: nat where
  "chan_size = 10"

definition new_connection :: connection where
  "new_connection = \<lparr>at_serve = Upgrading, at_pump = NotStarted, registered = False, closed = False,
     buffer = [], calls = [], ws_closed = False, put_in = [], forwarded = []\<rparr>"

definition Unregister :: "(bool \<times> bool \<Rightarrow> bool \<times> bool) \<Rightarrow> connection \<Rightarrow> connection" where
  "Unregister unreg c =
     (let (r, cl) = unreg (registered c, closed c) in c\<lparr>registered := r, closed := cl\<rparr>)"

text \<open>The statements of \<open>serve\<close>; \<open>Upgrade\<close> and \<open>endpoint.Serve\<close> end as the peer likes.\<close>

inductive serve_step :: "(bool \<times> bool \<Rightarrow> bool \<times> bool) \<Rightarrow> i64 \<Rightarrow> connection \<Rightarrow> connection \<Rightarrow> bool"
  for unreg now where
  upgrade_fails: "at_serve c = Upgrading \<Longrightarrow> serve_step unreg now c (c\<lparr>at_serve := Returned\<rparr>)"
| upgrade: "at_serve c = Upgrading \<Longrightarrow> serve_step unreg now c (c\<lparr>at_serve := Registering\<rparr>)"
| register: "at_serve c = Registering \<Longrightarrow> serve_step unreg now c (c\<lparr>at_serve := Greeting, registered := True\<rparr>)"
| greet: "at_serve c = Greeting \<Longrightarrow>
    serve_step unreg now c (c\<lparr>at_serve := Spawning, calls := calls c @ [greeting now]\<rparr>)"
| spawn: "at_serve c = Spawning \<Longrightarrow> serve_step unreg now c (c\<lparr>at_serve := Serving, at_pump := Ranging\<rparr>)"
| serve_ends: "at_serve c = Serving \<Longrightarrow> serve_step unreg now c (c\<lparr>at_serve := Leaving\<rparr>)"
| leave: "at_serve c = Leaving \<Longrightarrow> serve_step unreg now c (Unregister unreg (c\<lparr>at_serve := Returned\<rparr>))"

text \<open>The goroutine: \<open>range messages\<close>, then \<open>ws.Close\<close>, then the deferred \<open>Unregister\<close>.\<close>

inductive pump_step :: "(bool \<times> bool \<Rightarrow> bool \<times> bool) \<Rightarrow> connection \<Rightarrow> connection \<Rightarrow> bool"
  for unreg where
  receive: "at_pump c = Ranging \<Longrightarrow> buffer c = m # ms \<Longrightarrow>
    pump_step unreg c (c\<lparr>at_pump := Holding m, buffer := ms\<rparr>)"
| forward: "at_pump c = Holding m \<Longrightarrow>
    pump_step unreg c (c\<lparr>at_pump := Ranging, calls := calls c @ [m], forwarded := forwarded c @ [m]\<rparr>)"
| exhausted: "at_pump c = Ranging \<Longrightarrow> buffer c = [] \<Longrightarrow> closed c \<Longrightarrow> pump_step unreg c (c\<lparr>at_pump := Kicking\<rparr>)"
| kick_ws: "at_pump c = Kicking \<Longrightarrow> pump_step unreg c (c\<lparr>at_pump := Unregistering, ws_closed := True\<rparr>)"
| finish: "at_pump c = Unregistering \<Longrightarrow> pump_step unreg c (Unregister unreg (c\<lparr>at_pump := Ended\<rparr>))"

inductive topic_step :: "(bool \<times> bool \<Rightarrow> bool \<times> bool) \<Rightarrow> connection \<Rightarrow> connection \<Rightarrow> bool"
  for unreg where
  put: "registered c \<Longrightarrow> \<not> closed c \<Longrightarrow> length (buffer c) < chan_size \<Longrightarrow>
    topic_step unreg c (c\<lparr>buffer := buffer c @ [m], put_in := put_in c @ [m]\<rparr>)"
| slow: "registered c \<Longrightarrow> topic_step unreg c (Unregister unreg c)"

definition conn_step :: "(bool \<times> bool \<Rightarrow> bool \<times> bool) \<Rightarrow> i64 \<Rightarrow> connection \<Rightarrow> connection \<Rightarrow> bool" where
  "conn_step unreg now c c' \<longleftrightarrow> serve_step unreg now c c' \<or> pump_step unreg c c' \<or> topic_step unreg c c'"

inductive conn_reachable :: "(bool \<times> bool \<Rightarrow> bool \<times> bool) \<Rightarrow> i64 \<Rightarrow> connection \<Rightarrow> bool"
  for unreg now where
  start: "conn_reachable unreg now new_connection"
| step: "conn_reachable unreg now c \<Longrightarrow> conn_step unreg now c c' \<Longrightarrow> conn_reachable unreg now c'"

inductive_cases serve_stepE: "serve_step unreg now c c'"
inductive_cases pump_stepE: "pump_step unreg c c'"
inductive_cases topic_stepE: "topic_step unreg c c'"

text \<open>
  What is relied on: unregistering a registered consumer closes its channel, and unregistering
  one that is not registered any more changes nothing.
\<close>

definition unregister_closes :: "(bool \<times> bool \<Rightarrow> bool \<times> bool) \<Rightarrow> bool" where
  "unregister_closes unreg \<longleftrightarrow> unreg (True, False) = (False, True) \<and> unreg (False, True) = (False, True)"

section \<open>The invariant\<close>

fun held :: "pump_at \<Rightarrow> outgoing list" where
  "held (Holding m) = [m]"
| "held _ = []"

text \<open>Where \<open>serve\<close> is decides whether the pump runs, the consumer is registered and the channel open.\<close>

fun serve_ok :: "serve_at \<Rightarrow> pump_at \<Rightarrow> bool \<Rightarrow> bool \<Rightarrow> bool" where
  "serve_ok Upgrading p r cl \<longleftrightarrow> p = NotStarted \<and> \<not> r \<and> \<not> cl"
| "serve_ok Registering p r cl \<longleftrightarrow> p = NotStarted \<and> \<not> r \<and> \<not> cl"
| "serve_ok Greeting p r cl \<longleftrightarrow> p = NotStarted \<and> cl = (\<not> r)"
| "serve_ok Spawning p r cl \<longleftrightarrow> p = NotStarted \<and> cl = (\<not> r)"
| "serve_ok Serving p r cl \<longleftrightarrow> p \<noteq> NotStarted \<and> cl = (\<not> r)"
| "serve_ok Leaving p r cl \<longleftrightarrow> p \<noteq> NotStarted \<and> cl = (\<not> r)"
| "serve_ok Returned p r cl \<longleftrightarrow> \<not> r \<and> (p \<noteq> NotStarted) = cl"

text \<open>Once the pump stopped forwarding, the channel is drained and the websocket gets closed.\<close>

fun pump_ok :: "pump_at \<Rightarrow> bool \<Rightarrow> outgoing list \<Rightarrow> bool \<Rightarrow> bool" where
  "pump_ok Kicking cl buf ws \<longleftrightarrow> cl \<and> buf = []"
| "pump_ok Unregistering cl buf ws \<longleftrightarrow> cl \<and> buf = [] \<and> ws"
| "pump_ok Ended cl buf ws \<longleftrightarrow> cl \<and> buf = [] \<and> ws"
| "pump_ok _ cl buf ws \<longleftrightarrow> True"

text \<open>The calls are the greeting, then what was forwarded.\<close>

definition calls_ok :: "i64 \<Rightarrow> connection \<Rightarrow> bool" where
  "calls_ok now c \<longleftrightarrow>
     calls c = (if at_pump c = NotStarted \<and> at_serve c \<noteq> Spawning then [] else greeting now # forwarded c) \<and>
     (at_pump c = NotStarted \<longrightarrow> forwarded c = []) \<and> put_in c = forwarded c @ held (at_pump c) @ buffer c \<and> length (buffer c) \<le> chan_size"

definition conn_inv :: "i64 \<Rightarrow> connection \<Rightarrow> bool" where
  "conn_inv now c \<longleftrightarrow> serve_ok (at_serve c) (at_pump c) (registered c) (closed c) \<and>
     pump_ok (at_pump c) (closed c) (buffer c) (ws_closed c) \<and> calls_ok now c"

lemma Unregister_simp:
  "unregister_closes unreg \<Longrightarrow> closed c = (\<not> registered c) \<Longrightarrow> Unregister unreg c = c\<lparr>registered := False, closed := True\<rparr>"
  by (cases "registered c") (simp_all add: Unregister_def unregister_closes_def)

lemma Unregister_pump [simp]: "at_pump (Unregister unreg c) = at_pump c" "buffer (Unregister unreg c) = buffer c"
  by (simp_all add: Unregister_def case_prod_beta)

lemma conn_inv_start: "conn_inv now new_connection"
  by (simp add: conn_inv_def calls_ok_def new_connection_def)

lemma serve_step_inv:
  assumes "serve_step unreg now c c'" and closes: "unregister_closes unreg"
  shows "conn_inv now c \<Longrightarrow> conn_inv now c'"
  using assms(1)
  by (cases; cases "at_pump c") (auto simp: conn_inv_def calls_ok_def Unregister_simp [OF closes])

lemma pump_step_inv:
  assumes "pump_step unreg c c'" and closes: "unregister_closes unreg"
  shows "conn_inv now c \<Longrightarrow> conn_inv now c'"
  using assms(1)
  by (cases; cases "at_serve c") (auto simp: conn_inv_def calls_ok_def Unregister_simp [OF closes])

lemma topic_step_inv:
  assumes "topic_step unreg c c'" and closes: "unregister_closes unreg"
  shows "conn_inv now c \<Longrightarrow> conn_inv now c'"
  using assms(1)
  by (cases; cases "at_serve c"; cases "at_pump c")
    (auto simp: conn_inv_def calls_ok_def Unregister_simp [OF closes])

lemma conn_reachable_inv: "conn_reachable unreg now c \<Longrightarrow> unregister_closes unreg \<Longrightarrow> conn_inv now c"
proof (induction rule: conn_reachable.induct)
  case (step c c')
  then show ?case
    unfolding conn_step_def using serve_step_inv pump_step_inv topic_step_inv by blast
qed (rule conn_inv_start)

section \<open>The pump ends\<close>

text \<open>
  How many steps the goroutine has left once nothing is put into the channel any more. The last
  line is for a connection that never got one.
\<close>

fun pump_left :: "pump_at \<Rightarrow> nat \<Rightarrow> nat" where
  "pump_left Ranging n = 2 * n + 3"
| "pump_left (Holding m) n = 2 * n + 4"
| "pump_left Kicking n = 2"
| "pump_left Unregistering n = 1"
| "pump_left Ended n = 0"
| "pump_left NotStarted n = 0"

lemma pump_left_decreases:
  "pump_step unreg c c' \<Longrightarrow> unregister_closes unreg \<Longrightarrow>
   pump_left (at_pump c) (length (buffer c)) = Suc (pump_left (at_pump c') (length (buffer c')))"
  by (induction rule: pump_step.induct) auto

lemma pump_enabled:
  assumes "closed c" and "0 < pump_left (at_pump c) (length (buffer c))"
  shows "\<exists>c'. pump_step unreg c c'"
proof (cases "at_pump c")
  case Ranging
  with assms(1) show ?thesis by (cases "buffer c") (auto intro: pump_step.intros)
qed (use assms in \<open>auto intro: pump_step.intros\<close>)

definition steps_left :: "connection \<Rightarrow> nat" where
  "steps_left c = pump_left (at_pump c) (length (buffer c))"

text \<open>Once \<open>serve\<close> has returned only the pump moves, and every one of its steps is progress.\<close>

definition returned :: "i64 \<Rightarrow> connection \<Rightarrow> bool" where
  "returned now c \<longleftrightarrow> conn_inv now c \<and> at_serve c = Returned \<and> at_pump c \<noteq> NotStarted"

lemma returned_closed: "returned now c \<Longrightarrow> closed c \<and> \<not> registered c"
  by (auto simp: returned_def conn_inv_def)

lemma only_pump_after_return:
  assumes "returned now c" and "conn_step unreg now c c'"
  shows "pump_step unreg c c'"
proof -
  have "\<not> registered c" "at_serve c = Returned" using assms(1) returned_closed by (auto simp: returned_def)
  then show ?thesis using assms(2) by (auto simp: conn_step_def elim: serve_stepE topic_stepE)
qed

lemma pump_step_keeps: "pump_step unreg c c' \<Longrightarrow> at_serve c' = at_serve c \<and> put_in c' = put_in c \<and> at_pump c' \<noteq> NotStarted"
  by (induction rule: pump_step.induct) (auto simp: Unregister_def split: prod.split)

lemma returned_step:
  assumes closes: "unregister_closes unreg" and ret: "returned now c" and st: "conn_step unreg now c c'"
  shows "returned now c' \<and> put_in c' = put_in c \<and> steps_left c = Suc (steps_left c')"
proof -
  have p: "pump_step unreg c c'" using ret st by (rule only_pump_after_return)
  with pump_step_keeps [OF p] pump_step_inv [OF p closes] pump_left_decreases [OF p closes] ret show ?thesis
    by (simp add: returned_def steps_left_def)
qed

lemma returned_run:
  assumes closes: "unregister_closes unreg"
  shows "(conn_step unreg now ^^ n) c c' \<Longrightarrow> returned now c \<Longrightarrow>
    returned now c' \<and> put_in c' = put_in c \<and> steps_left c = n + steps_left c'"
proof (induction n arbitrary: c')
  case (Suc n)
  obtain d where d: "(conn_step unreg now ^^ n) c d" "conn_step unreg now d c'"
    using Suc.prems(1) by (rule relpowp_Suc_E)
  with Suc.IH [OF d(1) Suc.prems(2)] returned_step [OF closes _ d(2)] show ?case by auto
qed simp

lemma returned_progress:
  assumes "unregister_closes unreg" and "returned now c"
  shows "n \<le> steps_left c \<Longrightarrow> \<exists>c'. (conn_step unreg now ^^ n) c c'"
proof (induction n)
  case (Suc n)
  then obtain d where d: "(conn_step unreg now ^^ n) c d" by auto
  note r = returned_run [OF assms(1) d assms(2)]
  have "0 < pump_left (at_pump d) (length (buffer d))" using r Suc.prems by (simp add: steps_left_def)
  then obtain c' where "pump_step unreg d c'" using pump_enabled returned_closed r by blast
  then have "conn_step unreg now d c'" by (simp add: conn_step_def)
  with d show ?case by (blast intro: relpowp_Suc_I)
qed auto

lemma steps_left_bound: "conn_inv now c \<Longrightarrow> steps_left c \<le> 2 * chan_size + 4"
  by (cases "at_pump c") (simp_all add: steps_left_def conn_inv_def calls_ok_def)

text \<open>With no steps left the goroutine is gone: everything was forwarded, the websocket is closed.\<close>

lemma steps_left_0:
  assumes "returned now c" and "steps_left c = 0"
  shows "at_pump c = Ended \<and> ws_closed c \<and> calls c = greeting now # put_in c"
  using assms by (cases "at_pump c") (simp_all add: returned_def steps_left_def conn_inv_def calls_ok_def)

end
