(* ===== verification/Chat_Props.thy ===== *)
theory Chat_Props
  imports Chat Websocket_Props
begin

text \<open>
  Properties of the chat service: what a chat message becomes on its way from one client to
  another, and what \<open>serve\<close> does with the broadcasts of its connection.
\<close>

text \<open>
  C23. What one client says is what the others hear: \<open>Chat.Message\<close> broadcasts one message and does
  not fail, and when the websocket codec of a connection has written a call with that message,
  the other side reads a call of \<open>Chat.Message\<close> whose argument unmarshals, in a receiver that
  held anything, to the message that was sent in. The broadcast's time is the clock modulo the 32
  bits its field has; the receiver has no such field and skips it.
\<close>

theorem chat_message_relayed:
  assumes "ws_writing A obj W out sent L outgoing unclosed kind" and "ws_reading A obj S view L' incoming"
    and "buffer_store store" and "msgp_decoding A obj S' (\<lambda>s. s)"
    and "Chat_Message now msg sofar = (sofar @ [m], err)" and "str_ok (in_From msg)" and "str_ok (in_Message msg)"
    and "Ws_WriteMessage (chat_types A S') A store W L pick c st (chat_call i m) = (c', st', None)"
    and "world_ok [] st" and "outgoing (ws_conn c') = outgoing (ws_conn c) @ new"
    and "separated mm (slices (ws_wire r))" and "incoming (ws_conn r) = new @ rest"
  shows "err = None \<and> uint (out_Time m) = sint now mod 2 ^ 32 \<and>
    (\<exists>msg' r' mm'. Ws_ReadMessage L' store S r mm old = (msg', r', mm', None) \<and> incoming (ws_conn r') = rest \<and>
      msg_Func msg' = ''Chat.Message'' \<and>
      Ws_UnmarshalArgs (chat_types A S') mm' msg' (PIncoming z) = (PIncoming msg, None))"
proof -
  have m: "m = \<lparr>out_Time = ucast now, out_From = in_From msg, out_Message = in_Message msg\<rparr>" "err = None"
    using assms(5) by (simp_all add: Chat_Message_def)
  have "take_bit 32 (sint now) = take_bit 32 (uint now)"
    by (simp add: sint_uint take_bit_signed_take_bit)
  then have time: "uint (ucast now :: u32) = sint now mod 2 ^ 32"
    unfolding take_bit_eq_mod [symmetric] by (simp add: unsigned_ucast_eq)
  have "Outgoing_ok m" "as_incoming m = msg" using assms(6,7) by (simp_all add: m Outgoing_ok_def as_incoming_def)
  with chat_call_travels [OF assms(4), of m i z Nothing]
  have t: "message_travels (chat_types A S') obj (chat_call i m) (PIncoming z) (PIncoming msg) (PNothing Nothing) (PNothing Nothing)"
    by simp
  have "separated mm (slices (ws_wire r) @ [])" using assms(11) by simp
  from message_channel.travel [OF websocket_channel [OF assms(1-3)] t assms(8,9) TrueI assms(10) this TrueI assms(12), of old]
  show ?thesis using m time by (auto simp: Ws_UnmarshalArgs_def chat_call_def)
qed

abbreviation hello :: incoming where
  "hello \<equiv> \<lparr>in_From = ''al'', in_Message = ''hey''\<rparr>"

abbreviation hello_out :: outgoing where
  "hello_out \<equiv> \<lparr>out_Time = 5, out_From = ''al'', out_Message = ''hey''\<rparr>"

abbreviation hello_form :: bytes where
  "hello_form \<equiv> [0x83, 0xa4, 0x74, 0x69, 0x6d, 0x65, 5, 0xa4, 0x66, 0x72, 0x6f, 0x6d, 0xa2, 0x61, 0x6c,
     0xa7, 0x6d, 0x65, 0x73, 0x73, 0x61, 0x67, 0x65, 0xa3, 0x68, 0x65, 0x79]"

abbreviation hello_frame :: bytes where
  "hello_frame \<equiv> [0x95, 3, 0xac, 0x43, 0x68, 0x61, 0x74, 0x2e, 0x4d, 0x65, 0x73, 0x73, 0x61, 0x67, 0x65] @ hello_form @ [0xc0, 0xc0]"

lemma hello_written:
  "Ws_WriteMessage (chat_types ref_append ref_in) ref_append (append_store no_spare) ref_out ref_ws_lib None
     (sample_ws [] 3 60) empty_world (chat_call 3 hello_out) =
     (sample_ws [] 2 60 \<lparr>ws_conn := \<lparr>ws_in = [], ws_out = [(2, hello_frame)], ws_open = 0, ws_room = 2\<rparr>,
        ws_w := \<lparr>buffered = [], delivered = hello_frame, room = 16\<rparr>\<rparr>,
      \<lparr>w_mem = [hello_form],
       w_pool = [\<lparr>ID = 3, Func = ''Chat.Message'', Args = Slice 0 0 27, Result = SliceNil, Error = None\<rparr>]\<rparr>, None)"
  by (simp add: Ws_WriteMessage_def ref_ws_lib_def BinaryMessage_def chat_call_def chat_types_def Outgoing_MarshalMsg_def write_eval)

theorem chat_message_relayed_witness:
  "\<exists>msg' r' mm'. Ws_ReadMessage ref_ws_lib (append_store no_spare) ref_reader (sample_ws [(2, hello_frame)] 0 0) []
      (chat_call 9 hello_out) = (msg', r', mm', None) \<and> msg_Func msg' = ''Chat.Message'' \<and>
    Ws_UnmarshalArgs (chat_types ref_append ref_in) mm' msg' (PIncoming \<lparr>in_From = ''old'', in_Message = ''''\<rparr>) =
      (PIncoming hello, None)"
proof -
  have "Chat_Message (2 ^ 32 + 5) hello [] = ([] @ [hello_out], None :: ref_error goerr option)"
    by (simp add: Chat_Message_def ucast_eq)
  from chat_message_relayed [OF ref_ws.ws_writing_axioms ref_ws.ws_reading_axioms go_store.buffer_store_axioms
      ref.msgp_decoding_axioms this _ _ hello_written empty_world_ok, where new = "[(2, hello_frame)]" and mm = "[]" and rest = "[]"
      and r = "sample_ws [(2, hello_frame)] 0 0" and old = "chat_call 9 hello_out" and z = "\<lparr>in_From = ''old'', in_Message = ''''\<rparr>"]
  show ?thesis by (fastforce simp: separated_def slices_def new_Message_def str_ok_def)
qed


text \<open>
  C13. Broadcasts are forwarded in order, none twice and none left out: in every state of \<open>serve\<close>,
  its goroutine and the topic, the calls made on the endpoint are the greeting and then a prefix
  of what the topic put into the connection's channel; the rest is the message in the
  goroutine's hands and the at most ten in the channel. Once the goroutine has ended there is no
  rest, the websocket is closed and the consumer is not registered.
\<close>

theorem chat_broadcasts_in_order:
  assumes "unregister_closes unreg" and "conn_reachable unreg now c"
  shows "(calls c \<noteq> [] \<longrightarrow> hd (calls c) = \<lparr>out_Time = ucast now, out_From = ''Server'', out_Message = ''HELLO FROM SERVER''\<rparr>) \<and>
    put_in c = tl (calls c) @ held (at_pump c) @ buffer c \<and> length (buffer c) \<le> 10 \<and>
    (at_pump c = Ended \<longrightarrow> tl (calls c) = put_in c \<and> ws_closed c \<and> \<not> registered c)"
proof -
  note inv = conn_reachable_inv [OF assms(2,1)]
  have "at_pump c = Ended \<Longrightarrow> ws_closed c \<and> buffer c = [] \<and> \<not> registered c"
    using inv by (cases "at_serve c") (auto simp: conn_inv_def)
  with inv show ?thesis
    by (auto simp: conn_inv_def calls_ok_def greeting_def chan_size_def split: if_splits)
qed

text \<open>A connection to which the topic puts one message before it unregisters the slow consumer.\<close>

abbreviation unreg_closes :: "bool \<times> bool \<Rightarrow> bool \<times> bool" where
  "unreg_closes \<equiv> \<lambda>_. (False, True)"

lemma conn_step_serve: "serve_step unreg now c c' \<Longrightarrow> conn_reachable unreg now c \<Longrightarrow> conn_reachable unreg now c'"
  by (rule conn_reachable.step, assumption, simp add: conn_step_def)

lemma conn_step_topic: "topic_step unreg c c' \<Longrightarrow> conn_reachable unreg now c \<Longrightarrow> conn_reachable unreg now c'"
  by (rule conn_reachable.step, assumption, simp add: conn_step_def)

abbreviation kicked :: connection where
  "kicked \<equiv> \<lparr>at_serve = Returned, at_pump = Ranging, registered = False, closed = True, buffer = [hello_out],
     calls = [greeting 7], ws_closed = False, put_in = [hello_out], forwarded = []\<rparr>"

lemma kicked_reachable: "conn_reachable unreg_closes 7 kicked"
proof -
  note s = new_connection_def chan_size_def Unregister_def
  have 1: "conn_reachable unreg_closes 7 (new_connection\<lparr>at_serve := Registering\<rparr>)"
    using conn_step_serve [OF serve_step.upgrade conn_reachable.start] by (simp add: s)
  have 2: "conn_reachable unreg_closes 7 (new_connection\<lparr>at_serve := Greeting, registered := True\<rparr>)"
    using conn_step_serve [OF serve_step.register 1] by (simp add: s)
  have 3: "conn_reachable unreg_closes 7 (new_connection\<lparr>at_serve := Spawning, registered := True, calls := [greeting 7]\<rparr>)"
    using conn_step_serve [OF serve_step.greet 2] by (simp add: s)
  have 4: "conn_reachable unreg_closes 7 (new_connection\<lparr>at_serve := Spawning, registered := True, calls := [greeting 7],
      buffer := [hello_out], put_in := [hello_out]\<rparr>)"
    using conn_step_topic [OF topic_step.put 3, of hello_out] by (simp add: s)
  have 5: "conn_reachable unreg_closes 7 (new_connection\<lparr>at_serve := Serving, at_pump := Ranging, registered := True,
      calls := [greeting 7], buffer := [hello_out], put_in := [hello_out]\<rparr>)"
    using conn_step_serve [OF serve_step.spawn 4] by (simp add: s)
  have 6: "conn_reachable unreg_closes 7 (new_connection\<lparr>at_serve := Leaving, at_pump := Ranging, registered := True,
      calls := [greeting 7], buffer := [hello_out], put_in := [hello_out]\<rparr>)"
    using conn_step_serve [OF serve_step.serve_ends 5] by (simp add: s)
  show ?thesis
    using conn_step_serve [OF serve_step.leave 6] by (simp add: s)
qed

theorem chat_broadcasts_in_order_witness:
  "put_in kicked = tl (calls kicked) @ held (at_pump kicked) @ buffer kicked"
  using chat_broadcasts_in_order [OF _ kicked_reachable] by (simp add: unregister_closes_def)

text \<open>
  C12. No goroutine is left behind: once \<open>serve\<close> has returned, every schedule lets the connection
  make the same number of further steps, at most 24, and never blocks before; after them the
  goroutine has ended, everything the topic had put into the channel was passed on after the
  greeting, and the websocket is closed.
\<close>

theorem chat_pump_ends:
  assumes "unregister_closes unreg" and "conn_reachable unreg now c" and "at_serve c = Returned" and "at_pump c \<noteq> NotStarted"
  shows "\<exists>k \<le> 24. (\<forall>n c'. (conn_step unreg now ^^ n) c c' \<longrightarrow> n \<le> k) \<and>
    (\<forall>n < k. \<forall>d. (conn_step unreg now ^^ n) c d \<longrightarrow> (\<exists>d'. conn_step unreg now d d')) \<and>
    (\<forall>c'. (conn_step unreg now ^^ k) c c' \<longrightarrow>
      at_pump c' = Ended \<and> ws_closed c' \<and> calls c' = greeting now # put_in c \<and> put_in c' = put_in c)"
proof (intro exI [of _ "steps_left c"] conjI allI impI)
  have ret: "returned now c"
    using conn_reachable_inv [OF assms(2,1)] assms(3,4) by (simp add: returned_def)
  then have "conn_inv now c" by (simp add: returned_def)
  then show "steps_left c \<le> 24" using steps_left_bound [of now c] by (simp add: chan_size_def)
  show "n \<le> steps_left c" if "(conn_step unreg now ^^ n) c c'" for n c'
    using returned_run [OF assms(1) that ret] by simp
  show "\<exists>d'. conn_step unreg now d d'" if "n < steps_left c" and d: "(conn_step unreg now ^^ n) c d" for n d
  proof -
    note r = returned_run [OF assms(1) d ret]
    then have "1 \<le> steps_left d" using that(1) by simp
    from returned_progress [OF assms(1) _ this] r show ?thesis by auto
  qed
  show "at_pump c' = Ended" "ws_closed c'" "calls c' = greeting now # put_in c" "put_in c' = put_in c"
    if "(conn_step unreg now ^^ steps_left c) c c'" for c'
    using returned_run [OF assms(1) that ret] steps_left_0 [of now c'] by simp_all
qed

theorem chat_pump_ends_witness:
  "\<exists>k \<le> 24. \<forall>c'. (conn_step unreg_closes 7 ^^ k) kicked c' \<longrightarrow> at_pump c' = Ended \<and> calls c' = [greeting 7, hello_out]"
  using chat_pump_ends [OF _ kicked_reachable] by (fastforce simp: unregister_closes_def)

end
