(* ===== verification/Spec2Isabelle.thy ===== *)
theory Spec2Isabelle
  imports Prelude Msgp Msgpack_Ref Mpc_Gen Wire Go_Memory Mpc Mem_Decode Mpc_Props Ownership Ownership_Props
    Map_Codec Codec Testmsg Services Samples Testmsg_Props Generic Generic_Props Critical Writers Websocket Websocket_Props
    Redis Redis_Props Chat_Gen Chat Chat_Props
begin

text \<open>
  bimpc is the MessagePack side of birpc, a bidirectional RPC library: three codecs that carry
  birpc's messages over a byte stream, over a websocket and over redis pub-sub, the package they
  share, generated MessagePack code, a test service and an example chat. This development models
  all of it that is not user interface, at the level of the single statement, and proves what a
  user of it relies on: a message that was written without an error arrives, complete, once, in
  order and unchanged; no payload changes in the hands of a service; no buffer, message
  writer, goroutine or connection taken for a write is lost on an error path.

  \<^bold>\<open>The program and the theories.\<close> A call goes from birpc to \<open>Codec.WriteMessage\<close>, which takes a
  wire message from a pool (\<open>mpc.GetMessage\<close>), fills it (\<open>mpc.ToWire\<close>, which runs the payload
  types' generated \<open>MarshalMsg\<close>), and encodes it (\<open>Message.EncodeMsg\<close> or \<open>MarshalMsg\<close>) to the medium.
  On the other side \<open>Codec.ReadMessage\<close> decodes into the codec's own wire message, which it uses
  again and again, and \<open>mpc.FromWire\<close> copies the payloads out; birpc asks the codec to unmarshal
  them (\<open>mpc.Unmarshal\<close>) once it knows their types.

  \<^item> \<open>Prelude\<close>: machine types, Go's error values as a datatype, one constructor per way the code
    makes an error.
  \<^item> \<open>Msgp\<close>: the interface of \<open>tinylib/msgp\<close>, the runtime the generated code calls, as records
    of operations and locales of documented laws. \<open>Msgpack_Ref\<close>: a complete
    instance of these interfaces (MessagePack on byte slices, a reader over a chunked stream, a
    writer that may fail), on which the laws are proved and all examples are computed.
  \<^item> \<open>Mpc_Gen\<close>, \<open>Wire\<close>: \<open>mpc/mpc_gen.go\<close>, the ten methods of \<open>Message\<close> and \<open>Error\<close>, and the
    properties of the wire format.
  \<^item> \<open>Go_Memory\<close>: Go slices over a store of arrays, with aliasing, \<open>append\<close> and its growth.
    \<open>Mpc\<close>: \<open>mpc/mpc.go\<close> on that store. \<open>Mem_Decode\<close>: the generated decoder on slices, and that it
    refines the one on byte lists. \<open>Ownership\<close>: pool, writers, codecs and payloads of
    a whole process as a step relation. \<open>Mpc_Props\<close>, \<open>Ownership_Props\<close>: their properties.
  \<^item> \<open>Codec\<close>: the contract of a codec as locales (\<open>message_sender\<close>, \<open>message_receiver\<close>,
    \<open>message_channel\<close>) with the first-in-first-out and the typed delivery lemma proved once.
    \<open>Generic\<close> (\<open>generic/generic.go\<close>), \<open>Websocket\<close> (\<open>websocket/websocket.go\<close>) and \<open>Redis\<close>
    (\<open>redis/redis.go\<close>) model the three codecs and interpret the contract; \<open>Generic_Props\<close>,
    \<open>Websocket_Props\<close>, \<open>Redis_Props\<close> state what follows, and what is special to each.
  \<^item> \<open>Critical\<close>: goroutines that run a section under a mutex, statement by statement, and that
    this is as if each section ran in one go. \<open>Writers\<close>: goroutines that write on one codec at once,
    the section under \<open>wmu\<close> taken apart, for the stream down to the encoder's single writes.
  \<^item> \<open>Map_Codec\<close>: what all map-encoded generated types share. \<open>Testmsg\<close>
    (\<open>internal/testmsg/testmsg_gen.go\<close>) and \<open>Chat_Gen\<close> (\<open>examples/chat/main_gen.go\<close>) are its instances.
    \<open>Services\<close>: the services of \<open>internal/testmsg/testmsg.go\<close>, the counter as a user of \<open>Critical\<close>. \<open>Chat\<close>: \<open>examples/chat/main.go\<close>.
    \<open>Testmsg_Props\<close> and \<open>Chat_Props\<close> have their properties, \<open>Samples\<close> concrete values.
  \<^item> This theory: one call and its reply through all of the layers, and what the codecs give to
    methods that ask for their connection.

  \<^bold>\<open>State.\<close> A method with a pointer receiver takes the receiver's state and returns it; fields
  that hold library objects (reader, writer, connection, database) hold the state of the object.
  The \<open>rmu\<close> and \<open>wmu\<close> of the codecs make each \<open>ReadMessage\<close> and \<open>WriteMessage\<close> one step from
  state to state, so these are functions; \<open>Writers\<close> justifies this for writing, and where
  goroutines interleave inside an operation, or share buffers, there is a step relation
  (\<open>threads_reachable\<close>, \<open>threads_logged\<close>, \<open>arith_step\<close>, \<open>sys_step\<close>, \<open>conn_step\<close>). A deferred
  call is written at every return it runs before. Payload bytes are in the store \<open>mem\<close>: two
  slices may share an array, and that they never do is the invariant \<open>sys_inv\<close> of every
  reachable state.

  \<^bold>\<open>Parameters.\<close> Code that is not in the repository is an argument: msgp (\<open>msgp_append\<close>,
  \<open>msgp_in\<close>, \<open>msgp_out\<close>), gorilla/websocket (\<open>ws_lib\<close>), the redis client (\<open>rds_lib\<close>), the payload
  types of a caller (\<open>go_types\<close>), the choice of \<open>sync.Pool\<close> (\<open>pick\<close>), what a callee does with the
  buffer it is given (\<open>store\<close>), how much \<open>append\<close> grows (\<open>grow\<close>), what \<open>topic.Unregister\<close> does
  (\<open>unreg\<close>). Laws of theirs appear as premises, as locale predicates such as
  \<open>msgp_decoding A obj S view\<close>; each is shown of a concrete instance, and every property
  with a premise is followed by an example on that instance.

  \<^bold>\<open>Bounds and termination.\<close> Integers have their width: identifiers 64, the sum of \<open>Arith.Add\<close>
  64 with wrap-around, the chat's time 32, map and array headers 32 bits. Strings are those
  MessagePack can carry (\<open>str_ok\<close>, below \<open>2 ^ 32\<close> bytes). There is no fuel anywhere:
  \<open>Rds_ReadMessage\<close>, whose loop waits for the server, is a partial function, and
  \<open>redis_read_returns\<close> shows it returns as soon as there is a message, however many confirmations come
  first; the decoders' loops run as often as the map header says; \<open>chat_pump_ends\<close> bounds
  the steps of the chat's goroutine by 24, for its channel of ten.

  \<^bold>\<open>Not modelled.\<close> The chat's \<open>main\<close>, \<open>init\<close>, \<open>Usage\<close>, \<open>index\<close> and embedded assets (flags, HTTP,
  templates, logging); struct tags for JSON; allocation counts and benchmarks; birpc's own
  endpoint, which calls the codecs and is not in the repository. The redis \<open>Close\<close> takes no lock:
  \<open>redis_blocked_reader_survives_close\<close> is about a reader that waits in \<open>Pop\<close> meanwhile, but
  a \<open>Close\<close> between two accesses of \<open>c.sub\<close> is a data race, to which Go gives no meaning.
\<close>

section \<open>A call and its reply\<close>

text \<open>
  C3. A call of \<open>Arith.Add\<close> over a stream is answered with the sum. Every step is the code's own:
  the client's codec writes the call, the server's codec reads it and unmarshals the arguments
  into an \<open>Args\<close> that may hold anything, the service runs, the server's codec writes the reply
  that birpc makes of the call's identifier and the service's result, and the client's codec
  reads and unmarshals it. When the two writes report success no other step can fail, the reply
  has the call's identifier, and the result is the sum in 64-bit arithmetic with the call's string.
\<close>

theorem add_call_is_answered:
  assumes codec: "msgp_writing A obj W out sent" "msgp_decoding A obj S view" "buffer_store store" "msgp_decoding A obj S' (\<lambda>s. s)"
    and call: "str_ok (args_S a)" "msg_Args call = IVal (VArgs a)" "msg_Result call = INil" "msg_Error call = None"
      "str_ok (msg_Func call)"
    and sends: "Gen_WriteMessage (test_types A S') A store W pick c st call = (c1, st1, None)" "world_ok [] st"
      "out (gen_w c) = sent (gen_w c)" "sent (gen_w c1) = sent (gen_w c) @ request"
    and serves: "separated mm (slices (gen_wire s))" "view (gen_r s) = request @ later"
      "Gen_ReadMessage store S s mm old = (req, s1, mm1, err1)"
      "Gen_UnmarshalArgs (test_types A S') mm1 req (VArgs z) = (VArgs got, err2)"
      "Arith_Add got zero_result n = (res, n', err3)"
    and reply: "msg_ID reply = msg_ID req" "msg_Func reply = ''''" "msg_Args reply = INil" "msg_Result reply = IVal (VResult res)"
      "msg_Error reply = None"
    and replies: "Gen_WriteMessage (test_types A S') A store W pick' s1 stS reply = (s2, stS1, None)" "world_ok [] stS"
      "out (gen_w s1) = sent (gen_w s1)" "sent (gen_w s2) = sent (gen_w s1) @ response"
    and receives: "separated mmC (slices (gen_wire c1))" "view (gen_r c1) = response @ rest"
      "Gen_ReadMessage store S c1 mmC old' = (resp, c2, mmC1, err4)"
      "Gen_UnmarshalResult (test_types A S') mmC1 resp (VResult zr) = (v, err5)"
  shows "err1 = None \<and> err2 = None \<and> err3 = None \<and> err4 = None \<and> err5 = None \<and>
    msg_ID resp = msg_ID call \<and> msg_Error resp = None \<and>
    v = VResult \<lparr>res_C = args_A a + args_B a, res_S = args_S a\<rparr> \<and> n' = n + 1"
proof -
  note t = test_types_travel [OF codec(4)]
  have there: "message_travels (test_types A S') obj call (VArgs z) (VArgs a) (VResult zr) (VResult zr)"
    using t(1) [of a z] t(4) call by (simp add: message_travels_def Args_ok_def del: travels.simps)
  have "\<exists>msg' r' mm'. Gen_ReadMessage store S s mm old = (msg', r', mm', None) \<and> view (gen_r r') = later \<and>
      msg_ID msg' = msg_ID call \<and> msg_Func msg' = msg_Func call \<and> msg_Error msg' = msg_Error call \<and>
      Gen_UnmarshalArgs (test_types A S') mm' msg' (VArgs z) = (VArgs a, None) \<and>
      Gen_UnmarshalResult (test_types A S') mm' msg' (VResult zr) = (VResult zr, None)"
    by (rule stream_travels [OF codec(1-3) there sends serves(1,2)])
  then have r: "err1 = None" "msg_ID req = msg_ID call" "got = a" "err2 = None"
    using serves(3,4) by auto
  have res: "res = \<lparr>res_C = args_A a + args_B a, res_S = args_S a\<rparr>" "err3 = None" "n' = n + 1"
    using serves(5) r(3) by (simp_all add: Arith_Add_def Counter_inc_def)
  have again: "message_travels (test_types A S') obj reply (VArgs z) (VArgs z) (VResult zr) (VResult res)"
    using t(2) [of res zr] t(3) reply call(1) res(1)
    by (simp add: message_travels_def Result_ok_def str_ok_def del: travels.simps)
  have "\<exists>msg' r' mm'. Gen_ReadMessage store S c1 mmC old' = (msg', r', mm', None) \<and> view (gen_r r') = rest \<and>
      msg_ID msg' = msg_ID reply \<and> msg_Func msg' = msg_Func reply \<and> msg_Error msg' = msg_Error reply \<and>
      Gen_UnmarshalArgs (test_types A S') mm' msg' (VArgs z) = (VArgs z, None) \<and>
      Gen_UnmarshalResult (test_types A S') mm' msg' (VResult zr) = (VResult res, None)"
    by (rule stream_travels [OF codec(1-3) again replies receives(1,2)])
  then show ?thesis using receives(3,4) reply(1,5) r res by auto
qed


text \<open>A run: the call of theory \<open>Samples\<close> in two pieces, its reply in one, over a used server codec.\<close>

abbreviation call_pieces :: "bytes list" where
  "call_pieces \<equiv> [[0x95, 7, 0xa9], [0x41, 0x72, 0x69, 0x74, 0x68, 0x2e, 0x41, 0x64, 0x64, 0x83, 0xa1, 0x61, 20, 0xa1,
     0x62, 0xfd, 0xa1, 0x73, 0xa2, 0x68, 0x69, 0xc0, 0xc0]]"

abbreviation args_form :: bytes where
  "args_form \<equiv> [0x83, 0xa1, 0x61, 20, 0xa1, 0x62, 0xfd, 0xa1, 0x73, 0xa2, 0x68, 0x69]"

abbreviation result_form :: bytes where
  "result_form \<equiv> [0x82, 0xa1, 0x63, 17, 0xa1, 0x73, 0xa2, 0x68, 0x69]"

abbreviation reply_form :: bytes where
  "reply_form \<equiv> [0x95, 7, 0xa0, 0xc0, 0x82, 0xa1, 0x63, 17, 0xa1, 0x73, 0xa2, 0x68, 0x69, 0xc0]"

abbreviation sum_result :: test_result where
  "sum_result \<equiv> \<lparr>res_C = 17, res_S = ''hi''\<rparr>"

abbreviation sum_reply :: "test_value birpc_message" where
  "sum_reply \<equiv> \<lparr>msg_ID = 7, msg_Func = '''', msg_Args = INil, msg_Result = IVal (VResult sum_result), msg_Error = None\<rparr>"

abbreviation read_call :: "test_value birpc_message" where
  "read_call \<equiv> \<lparr>msg_ID = 7, msg_Func = ''Arith.Add'', msg_Args = IRaw (Slice 1 12 12), msg_Result = INil, msg_Error = None\<rparr>"

abbreviation read_reply :: "test_value birpc_message" where
  "read_reply \<equiv> \<lparr>msg_ID = 7, msg_Func = '''', msg_Args = INil, msg_Result = IRaw (Slice 1 9 9), msg_Error = None\<rparr>"

abbreviation used_server :: "(unit, bytes list, ref_writer) gen_codec" where
  "used_server \<equiv> (sample_generic [[]])\<lparr>gen_wire := \<lparr>ID = 7, Func = ''Arith.Add'', Args = Slice 0 0 12,
     Result = SliceNil, Error = None\<rparr>\<rparr>"

lemma call_read:
  "Gen_ReadMessage (append_store no_spare) ref_reader (sample_generic call_pieces) [] plain_call =
     (read_call, used_server, [args_form, args_form], None)"
proof -
  have "Message_DecodeMsg (mem_in (append_store no_spare) ref_reader) new_Message ([], call_pieces) =
     (\<lparr>ID = 7, Func = ''Arith.Add'', Args = Slice 0 12 12, Result = SliceNil, Error = None\<rparr>, ([args_form], [[]]), None)"
    by code_simp
  then show ?thesis
    by (simp add: Gen_ReadMessage_def mem_simps)
qed

lemma reply_read:
  "Gen_ReadMessage (append_store no_spare) ref_reader (sample_generic [reply_form] \<lparr>gen_w := w\<rparr>) [] plain_call =
     (read_reply, sample_generic [[]] \<lparr>gen_wire := \<lparr>ID = 7, Func = '''', Args = SliceNil, Result = Slice 0 0 9, Error = None\<rparr>,
        gen_w := w\<rparr>, [result_form, result_form], None)"
proof -
  have "Message_DecodeMsg (mem_in (append_store no_spare) ref_reader) new_Message ([], [reply_form]) =
     (\<lparr>ID = 7, Func = '''', Args = SliceNil, Result = Slice 0 9 9, Error = None\<rparr>, ([result_form], [[]]), None)"
    by code_simp
  then show ?thesis
    by (simp add: Gen_ReadMessage_def mem_simps)
qed

lemma payloads_read:
  "Gen_UnmarshalArgs ref_types [args_form, args_form] read_call (VArgs zero_args) = (VArgs sample_args, None)"
  "Gen_UnmarshalResult ref_types [result_form, result_form] read_reply (VResult zero_result) = (VResult sum_result, None)"
proof -
  have "Args_UnmarshalMsg ref_in zero_args args_form = (sample_args, [], None)"
    "Result_UnmarshalMsg ref_in zero_result result_form = (sum_result, [], None)"
    by code_simp+
  then show "Gen_UnmarshalArgs ref_types [args_form, args_form] read_call (VArgs zero_args) = (VArgs sample_args, None)"
    "Gen_UnmarshalResult ref_types [result_form, result_form] read_reply (VResult zero_result) = (VResult sum_result, None)"
    by (simp_all add: Gen_UnmarshalArgs_def Gen_UnmarshalResult_def Unmarshal_def test_types_def)
qed

lemma call_and_reply_written:
  "generic_write None (sample_generic [reply_form]) empty_world sample_call =
     (sample_generic [reply_form] \<lparr>gen_w := \<lparr>buffered = [], delivered = concat call_pieces, room = 74\<rparr>\<rparr>,
      \<lparr>w_mem = [args_form], w_pool = [\<lparr>ID = 7, Func = ''Arith.Add'', Args = Slice 0 0 12, Result = SliceNil, Error = None\<rparr>]\<rparr>, None)"
  "generic_write None used_server empty_world sum_reply =
     (used_server\<lparr>gen_w := \<lparr>buffered = [], delivered = reply_form, room = 86\<rparr>\<rparr>,
      \<lparr>w_mem = [result_form], w_pool = [\<lparr>ID = 7, Func = '''', Args = SliceNil, Result = Slice 0 0 9, Error = None\<rparr>]\<rparr>, None)"
  by (simp_all add: Gen_WriteMessage_def Result_MarshalMsg_def write_eval)

theorem add_call_is_answered_witness:
  "msg_ID read_reply = msg_ID sample_call \<and>
   fst (Gen_UnmarshalResult ref_types [result_form, result_form] read_reply (VResult zero_result)) =
     VResult \<lparr>res_C = 20 + - 3, res_S = ''hi''\<rparr>"
proof -
  have "Arith_Add sample_args zero_result 41 = (sum_result, 42, None :: ref_error goerr option)"
    by (simp add: Arith_Add_def Counter_inc_def)
  from add_call_is_answered [OF ref_stream.msgp_writing_axioms ref_stream.msgp_decoding_axioms go_store.buffer_store_axioms
      ref.msgp_decoding_axioms _ _ _ _ _ call_and_reply_written(1) empty_world_ok _ _ _ _ call_read payloads_read(1) this
      _ _ _ _ _ call_and_reply_written(2) empty_world_ok _ _ _ _ reply_read payloads_read(2),
      where a = sample_args and request = "concat call_pieces" and response = reply_form and later = "[]" and rest = "[]"]
  have "msg_ID read_reply = msg_ID sample_call \<and> VResult sum_result = VResult \<lparr>res_C = 20 + - 3, res_S = ''hi''\<rparr>"
    by (simp add: ref_written_def str_ok_def separated_def slices_def new_Message_def)
  then show ?thesis unfolding payloads_read fst_conv .
qed


section \<open>The codec's handle\<close>

text \<open>
  C40. \<open>FillArgs\<close> of the websocket and the redis codec replaces exactly the arguments of its
  handle's type, nil ones included, by the codec's connection or database, leaves all others,
  their order and their number as they are, and never fails.
\<close>

theorem fill_args_replaces_handles:
  "Ws_FillArgs ws arglist = (map (\<lambda>a. case a of Pointer _ \<Rightarrow> Pointer (Some ws) | Other x \<Rightarrow> Other x) arglist, None) \<and>
   Rds_FillArgs db arglist' = (map (\<lambda>a. case a of Pointer _ \<Rightarrow> Pointer (Some db) | Other x \<Rightarrow> Other x) arglist', None)"
  by (auto simp: Ws_FillArgs_def Rds_FillArgs_def fill_args_map split: rpc_arg.split)

end
